theory Spec2Isabelle
  imports Complex_Main "HOL-Library.Word"
begin

unbundle bit_operations_syntax

section \<open>Bytes and the C runtime\<close>

text \<open>
  Every buffer of the program is a \<open>std::vector<unsigned char>\<close>, a \<open>std::string\<close>
  or the bytes written to a \<open>FILE\<close>.  A byte is a \<^typ>\<open>char\<close> (eight bits), a buffer is a
  \<^typ>\<open>string\<close>; \<^term>\<open>of_char\<close> reads a byte as a number below 256 and \<^term>\<open>char_of\<close>
  is the cast of a number to \<open>unsigned char\<close> (it reduces modulo 256).  Values of type
  \<open>size_t\<close> are natural numbers: no counter of the program comes near the width of the
  machine word, and the one cast to \<open>unsigned int\<close> is written out as \<open>mod 2 ^ 32\<close>.
\<close>

type_synonym bytes = string

definition CRLF :: string where
  "CRLF = [CHR 0x0D, CHR 0x0A]"

section \<open>ascii85.h\<close>

definition lineWidth :: nat where
  "lineWidth = 72"

record Ascii85Encoder =
  m_output :: bytes
  m_column :: nat
  m_tuple :: nat
  m_count :: nat

text \<open>
  The statement that both \<open>EncodeTuple\<close> and \<open>EncodeByte\<close> repeat after each character:
  \<^verbatim>\<open>m_output.push_back(c); if (m_column++ >= lineWidth) { m_column = 0; push '\r'; push '\n'; }\<close>
  The comparison reads the column before the increment.
\<close>

definition push_char :: "char \<Rightarrow> Ascii85Encoder \<Rightarrow> Ascii85Encoder" where
  "push_char c e =
     (let e1 = e\<lparr>m_output := m_output e @ [c]\<rparr>;
          old = m_column e1;
          e2 = e1\<lparr>m_column := old + 1\<rparr>
      in if old \<ge> lineWidth
         then e2\<lparr>m_column := 0, m_output := m_output e2 @ [CHR 0x0D, CHR 0x0A]\<rparr>
         else e2)"

text \<open>The first loop of \<open>EncodeTuple\<close>: \<open>buf[index] = tuple % 85; tuple /= 85\<close>.\<close>

fun expand_tuple :: "nat \<Rightarrow> nat \<Rightarrow> nat list" where
  "expand_tuple 0 tuple = []"
| "expand_tuple (Suc n) tuple = (tuple mod 85) # expand_tuple n (tuple div 85)"

text \<open>
  The second loop of \<open>EncodeTuple\<close>, \<open>for (index = 0; index <= count; ++index)\<close>; the first
  argument counts the iterations that remain.  \<open>EncodeTuple\<close> is private and is only called
  with \<open>count\<close> from 1 to 4, so \<open>buf[4 - index]\<close> stays inside \<open>buf\<close>.
\<close>

fun EncodeTuple_loop :: "nat \<Rightarrow> nat \<Rightarrow> nat list \<Rightarrow> Ascii85Encoder \<Rightarrow> Ascii85Encoder" where
  "EncodeTuple_loop 0 index buf e = e"
| "EncodeTuple_loop (Suc n) index buf e =
     EncodeTuple_loop n (index + 1) buf (push_char (char_of (buf ! (4 - index) + 33)) e)"

definition EncodeTuple :: "nat \<Rightarrow> nat \<Rightarrow> Ascii85Encoder \<Rightarrow> Ascii85Encoder" where
  "EncodeTuple tuple count e = EncodeTuple_loop (count + 1) 0 (expand_tuple 5 tuple) e"

text \<open>
  \<open>switch (m_count++)\<close> has the cases 0 to 3 and no default.  The argument of \<open>EncodeTuple\<close>
  is \<open>static_cast<unsigned int>(m_tuple)\<close>.
\<close>

definition EncodeByte :: "char \<Rightarrow> Ascii85Encoder \<Rightarrow> Ascii85Encoder" where
  "EncodeByte c e0 =
     (let sel = m_count e0;
          e = e0\<lparr>m_count := sel + 1\<rparr>
      in if sel = 0 then e\<lparr>m_tuple := m_tuple e OR push_bit 24 (of_char c)\<rparr>
         else if sel = 1 then e\<lparr>m_tuple := m_tuple e OR push_bit 16 (of_char c)\<rparr>
         else if sel = 2 then e\<lparr>m_tuple := m_tuple e OR push_bit 8 (of_char c)\<rparr>
         else if sel = 3 then
           (let e1 = e\<lparr>m_tuple := m_tuple e OR of_char c\<rparr>;
                e2 = (if m_tuple e1 = 0 then push_char (CHR ''z'') e1
                      else EncodeTuple (m_tuple e1 mod 2 ^ 32) (m_count e1) e1)
            in e2\<lparr>m_tuple := 0, m_count := 0\<rparr>)
         else e)"

text \<open>
  \<open>EncodeToAscii85(data, numBytes)\<close>; the argument is the \<open>numBytes\<close> bytes at \<open>data\<close>
  (a null pointer is the empty list).
\<close>

definition EncodeToAscii85 :: "bytes \<Rightarrow> bytes" where
  "EncodeToAscii85 data =
     (let e0 = \<lparr>m_output = [], m_column = 0, m_tuple = 0, m_count = 0\<rparr>
      in if length data < 1 then m_output e0
         else
           (let e1 = foldl (\<lambda>e c. EncodeByte c e) e0 data;
                e2 = (if m_count e1 > 0
                      then EncodeTuple (m_tuple e1 mod 2 ^ 32) (m_count e1) e1 else e1);
                e3 = (if m_column e2 + 2 > lineWidth
                      then e2\<lparr>m_output := m_output e2 @ [CHR 0x0D, CHR 0x0A]\<rparr> else e2)
            in m_output e3 @ [CHR ''~'', CHR ''>'', CHR 0x0D, CHR 0x0A]))"

section \<open>The C runtime, as far as the program uses it\<close>

text \<open>
  \<open>printf\<close> conversions.  \<open>%zu\<close> and \<open>%ld\<close> print a number in decimal, \<open>%010zu\<close> pads
  it with zeros to ten digits, \<open>%032d\<close> pads a signed number to 32 characters.
\<close>

fun zu :: "nat \<Rightarrow> string" where
  "zu n = (if n < 10 then [char_of (48 + n)] else zu (n div 10) @ [char_of (48 + n mod 10)])"

declare zu.simps [simp del]

definition fmt_010zu :: "nat \<Rightarrow> string" where
  "fmt_010zu n = replicate (10 - length (zu n)) (CHR ''0'') @ zu n"

definition fmt_032d :: "int \<Rightarrow> string" where
  "fmt_032d i =
     (if i < 0 then ''-'' @ replicate (31 - length (zu (nat (- i)))) (CHR ''0'') @ zu (nat (- i))
      else replicate (32 - length (zu (nat i))) (CHR ''0'') @ zu (nat i))"

text \<open>
  What the program takes from outside.  A \<open>double\<close> is only stored, copied and printed by
  the functions modelled here, never computed with: it is a \<^typ>\<open>real\<close>, and its rendering
  by \<open>%lf\<close> is the parameter \<open>fmt_lf\<close>.  \<open>zlib_compress cap src\<close> is zlib's
  \<open>compress(dst, &dstLen, src, srcLen)\<close> called with \<open>dstLen = cap\<close>: it gives the status and
  the bytes written to \<open>dst\<close>, whose number is the new \<open>dstLen\<close>.  \<open>wfopen_ok name\<close> tells
  whether \<open>_wfopen_s\<close> opens the file.  A \<open>std::wstring\<close> is the list of its code units.
\<close>

type_synonym wstring = "nat list"

record runtime =
  fmt_lf :: "real \<Rightarrow> string"
  zlib_compress :: "nat \<Rightarrow> bytes \<Rightarrow> int \<times> bytes"
  wfopen_ok :: "wstring \<Rightarrow> bool"

definition Z_OK :: int where
  "Z_OK = 0"

text \<open>
  \<open>_vsnprintf_s(buf, size, _TRUNCATE, format, args)\<close>, where \<open>text\<close> is the complete
  rendering of \<open>format\<close> with \<open>args\<close>: when the text and its terminating NUL fit into \<open>size\<close>
  bytes the text is stored and its length returned; otherwise the first \<open>size - 1\<close>
  characters are stored and \<open>-1\<close> is returned.  The result is the return value and the bytes
  stored before the terminating NUL.
\<close>

definition vsnprintf_s :: "nat \<Rightarrow> string \<Rightarrow> int \<times> string" where
  "vsnprintf_s bufferSize text =
     (if length text < bufferSize then (int (length text), text)
      else (- 1, take (bufferSize - 1) text))"

text \<open>The \<open>std::string\<close> made from a \<open>char *\<close> ends before the first NUL.\<close>

definition c_str :: "string \<Rightarrow> string" where
  "c_str buf = takeWhile (\<lambda>c. c \<noteq> CHR 0x00) buf"

section \<open>draw2pdf.h\<close>

datatype error = PDFException nat wstring | UndefinedBehaviour

text \<open>The members \<open>x\<close> and \<open>y\<close> of \<open>PDFPoint\<close> are \<open>pt_x\<close> and \<open>pt_y\<close> here.\<close>

record PDFPoint =
  pt_x :: real
  pt_y :: real

record PDFBox =
  m_min :: PDFPoint
  m_max :: PDFPoint

record PDFColor =
  m_red :: real
  m_green :: real
  m_blue :: real
  m_alpha :: real

datatype LinePattern = LINE_SOLID | LINE_NULL

datatype FillPattern = FILL_SOLID | FILL_NULL

text \<open>
  The three style structs each have a member \<open>m_color\<close>, two of them a member \<open>m_pattern\<close>;
  the members carry the struct's name as a prefix where they are used.
\<close>

record PDFLineStyle =
  m_pattern :: LinePattern
  m_color :: PDFColor
  m_width :: real

record PDFFillStyle =
  m_pattern :: FillPattern
  m_color :: PDFColor

record PDFTextStyle =
  m_height :: real
  m_color :: PDFColor

record PDFCrossRef =
  m_objnum :: nat
  m_offset :: nat

record PDFImage =
  m_numX :: nat
  m_numY :: nat
  m_bpp :: nat
  m_stride :: nat
  m_objNum :: nat
  m_pixels :: bytes

record PDFStreamAccumulator =
  m_data :: bytes

text \<open>The default constructors.\<close>

definition PDFPoint_default :: PDFPoint where
  "PDFPoint_default = \<lparr>pt_x = 0, pt_y = 0\<rparr>"

definition PDFColor_default :: PDFColor where
  "PDFColor_default = \<lparr>m_red = 0, m_green = 0, m_blue = 0, m_alpha = 1\<rparr>"

definition PDFLineStyle_default :: PDFLineStyle where
  "PDFLineStyle_default =
     \<lparr>PDFLineStyle.m_pattern = LINE_SOLID, PDFLineStyle.m_color = PDFColor_default, m_width = 0\<rparr>"

definition PDFFillStyle_default :: PDFFillStyle where
  "PDFFillStyle_default =
     \<lparr>PDFFillStyle.m_pattern = FILL_SOLID, PDFFillStyle.m_color = PDFColor_default\<rparr>"

definition PDFTextStyle_default :: PDFTextStyle where
  "PDFTextStyle_default = \<lparr>m_height = 10, PDFTextStyle.m_color = PDFColor_default\<rparr>"

text \<open>
  The class \<open>Draw2pdf\<close>.  \<open>m_file\<close> is \<open>None\<close> for the null pointer and otherwise holds
  the bytes written to the open file so far, so that \<open>ftell\<close> is their number.  The last
  field is not a member: it collects the contents of the files that \<open>fclose\<close> has closed.
\<close>

record Draw2pdf =
  m_file :: "bytes option"
  m_pageMinimumPoints :: PDFPoint
  m_pageMaximumPoints :: PDFPoint
  m_lineStyle :: PDFLineStyle
  m_fillStyle :: PDFFillStyle
  m_textStyle :: PDFTextStyle
  m_crossRefs :: "PDFCrossRef list"
  m_objNumber :: nat
  m_catalogObjNumber :: nat
  m_pagesObjNumber :: nat
  m_contentsObjNumber :: nat
  m_xobjectObjNumber :: nat
  m_pageObjectNumbers :: "nat list"
  m_contentStream :: PDFStreamAccumulator
  m_images :: "PDFImage list"
  m_compressImages :: bool
  m_compressContent :: bool
  closed_files :: "bytes list"

definition Draw2pdf_default :: Draw2pdf where
  "Draw2pdf_default =
     \<lparr>m_file = None,
      m_pageMinimumPoints = PDFPoint_default,
      m_pageMaximumPoints = PDFPoint_default,
      m_lineStyle = PDFLineStyle_default,
      m_fillStyle = PDFFillStyle_default,
      m_textStyle = PDFTextStyle_default,
      m_crossRefs = [],
      m_objNumber = 1,
      m_catalogObjNumber = 0,
      m_pagesObjNumber = 0,
      m_contentsObjNumber = 0,
      m_xobjectObjNumber = 0,
      m_pageObjectNumbers = [],
      m_contentStream = \<lparr>m_data = []\<rparr>,
      m_images = [],
      m_compressImages = False,
      m_compressContent = False,
      closed_files = []\<rparr>"

section \<open>draw2pdf.cpp: the stream accumulator\<close>

definition AddData :: "bytes \<Rightarrow> PDFStreamAccumulator \<Rightarrow> PDFStreamAccumulator" where
  "AddData data acc = acc\<lparr>m_data := m_data acc @ data\<rparr>"

text \<open>
  The loop of \<open>Printf\<close>, \<open>for (bufferSize = 32; bufferSize < 16384; bufferSize *= 2)\<close>, with
  \<open>text\<close> the complete rendering of the format; the result is the final value of \<open>buffer\<close>,
  which is only assigned when \<open>_vsnprintf_s\<close> does not return \<open>-1\<close>.  The loop is entered
  with 32; the test \<open>0 < bufferSize\<close> is there for the function to be total.
\<close>

function Printf_loop :: "nat \<Rightarrow> string \<Rightarrow> string" where
  "Printf_loop bufferSize text =
     (if 0 < bufferSize \<and> bufferSize < 16384
      then (if fst (vsnprintf_s bufferSize text) \<noteq> - 1
            then c_str (snd (vsnprintf_s bufferSize text))
            else Printf_loop (bufferSize * 2) text)
      else [])"
  by pat_completeness auto
termination
  by (relation "measure (\<lambda>(bufferSize, text). 16384 - bufferSize)") auto

declare Printf_loop.simps [simp del]

definition Printf :: "string \<Rightarrow> PDFStreamAccumulator \<Rightarrow> PDFStreamAccumulator" where
  "Printf text acc = AddData (Printf_loop 32 text) acc"

section \<open>draw2pdf.cpp: styles and drawing calls\<close>

text \<open>\<open>m_contentStream.Printf(...)\<close>, given the rendering of the format.\<close>

definition content_Printf :: "string \<Rightarrow> Draw2pdf \<Rightarrow> Draw2pdf" where
  "content_Printf text s = s\<lparr>m_contentStream := Printf text (m_contentStream s)\<rparr>"

definition SetLineStyle :: "runtime \<Rightarrow> PDFLineStyle \<Rightarrow> Draw2pdf \<Rightarrow> Draw2pdf" where
  "SetLineStyle rt style s0 =
     (let s = s0\<lparr>m_lineStyle := style\<rparr>;
          s = content_Printf
                (fmt_lf rt (m_red (PDFLineStyle.m_color (m_lineStyle s))) @ '' '' @
                 fmt_lf rt (m_green (PDFLineStyle.m_color (m_lineStyle s))) @ '' '' @
                 fmt_lf rt (m_blue (PDFLineStyle.m_color (m_lineStyle s))) @ '' RG'' @ CRLF) s
      in content_Printf (fmt_lf rt (m_width (m_lineStyle s)) @ '' w'' @ CRLF) s)"

definition SetFillStyle :: "runtime \<Rightarrow> PDFFillStyle \<Rightarrow> Draw2pdf \<Rightarrow> Draw2pdf" where
  "SetFillStyle rt style s0 =
     (let s = s0\<lparr>m_fillStyle := style\<rparr>
      in content_Printf
           (fmt_lf rt (m_red (PDFFillStyle.m_color (m_fillStyle s))) @ '' '' @
            fmt_lf rt (m_green (PDFFillStyle.m_color (m_fillStyle s))) @ '' '' @
            fmt_lf rt (m_blue (PDFFillStyle.m_color (m_fillStyle s))) @ '' rg'' @ CRLF) s)"

definition SetTextStyle :: "PDFTextStyle \<Rightarrow> Draw2pdf \<Rightarrow> Draw2pdf" where
  "SetTextStyle style s = s\<lparr>m_textStyle := style\<rparr>"

text \<open>
  The loop that \<open>DrawPolyline\<close> and \<open>DrawPolygon\<close> share word for word: a move-to for the
  first point, a line-to for every other one.
\<close>

fun path_loop :: "runtime \<Rightarrow> PDFPoint list \<Rightarrow> bool \<Rightarrow> Draw2pdf \<Rightarrow> Draw2pdf" where
  "path_loop rt [] first s = s"
| "path_loop rt (point # points) first s =
     path_loop rt points False
       (content_Printf
          (fmt_lf rt (pt_x point) @ '' '' @ fmt_lf rt (pt_y point) @ '' '' @
           [if first then CHR ''m'' else CHR ''l''] @ CRLF) s)"

definition DrawPolyline :: "runtime \<Rightarrow> PDFPoint list \<Rightarrow> Draw2pdf \<Rightarrow> Draw2pdf" where
  "DrawPolyline rt points s =
     (if PDFLineStyle.m_pattern (m_lineStyle s) = LINE_NULL then s
      else content_Printf (''S'' @ CRLF) (path_loop rt points True s))"

definition DrawLine :: "runtime \<Rightarrow> PDFPoint \<Rightarrow> PDFPoint \<Rightarrow> Draw2pdf \<Rightarrow> Draw2pdf" where
  "DrawLine rt pt1 pt2 s = DrawPolyline rt [pt1, pt2] s"

definition DrawPolygon :: "runtime \<Rightarrow> PDFPoint list \<Rightarrow> Draw2pdf \<Rightarrow> Draw2pdf" where
  "DrawPolygon rt points s0 =
     (if PDFLineStyle.m_pattern (m_lineStyle s0) = LINE_NULL \<and>
         PDFFillStyle.m_pattern (m_fillStyle s0) = FILL_NULL
      then s0
      else
        (let s = path_loop rt points True s0;
             s = content_Printf (''h'' @ CRLF) s
         in if PDFLineStyle.m_pattern (m_lineStyle s) = LINE_SOLID \<and>
               PDFFillStyle.m_pattern (m_fillStyle s) = FILL_SOLID
            then content_Printf (''B*'' @ CRLF) s
            else if PDFFillStyle.m_pattern (m_fillStyle s) = FILL_SOLID
            then content_Printf (''f*'' @ CRLF) s
            else if PDFLineStyle.m_pattern (m_lineStyle s) = LINE_SOLID
            then content_Printf (''S'' @ CRLF) s
            else s))"

definition DrawRectangle :: "runtime \<Rightarrow> PDFBox \<Rightarrow> Draw2pdf \<Rightarrow> Draw2pdf" where
  "DrawRectangle rt box s =
     (let points = [];
          points = points @ [\<lparr>pt_x = pt_x (m_min box), pt_y = pt_y (m_min box)\<rparr>];
          points = points @ [\<lparr>pt_x = pt_x (m_max box), pt_y = pt_y (m_min box)\<rparr>];
          points = points @ [\<lparr>pt_x = pt_x (m_max box), pt_y = pt_y (m_max box)\<rparr>];
          points = points @ [\<lparr>pt_x = pt_x (m_min box), pt_y = pt_y (m_max box)\<rparr>]
      in DrawPolygon rt points s)"

text \<open>\<open>WideToNarrow\<close> casts every code unit to \<open>char\<close>.\<close>

definition WideToNarrow :: "wstring \<Rightarrow> string" where
  "WideToNarrow w = map char_of w"

definition DrawTextString :: "runtime \<Rightarrow> PDFPoint \<Rightarrow> wstring \<Rightarrow> Draw2pdf \<Rightarrow> Draw2pdf" where
  "DrawTextString rt point text s0 =
     (let s = content_Printf (''q'' @ CRLF) s0;
          s = content_Printf (''BT'' @ CRLF) s;
          s = content_Printf (''/F1 '' @ fmt_lf rt (m_height (m_textStyle s)) @ '' Tf'' @ CRLF) s;
          s = content_Printf
                (fmt_lf rt (m_red (PDFTextStyle.m_color (m_textStyle s))) @ '' '' @
                 fmt_lf rt (m_green (PDFTextStyle.m_color (m_textStyle s))) @ '' '' @
                 fmt_lf rt (m_blue (PDFTextStyle.m_color (m_textStyle s))) @ '' rg'' @ CRLF) s;
          text2 = WideToNarrow text;
          s = content_Printf
                (fmt_lf rt (pt_x point) @ '' '' @ fmt_lf rt (pt_y point) @ '' Td'' @ CRLF) s;
          s = content_Printf (''('' @ c_str text2 @ '') Tj'' @ CRLF) s;
          s = content_Printf (''ET'' @ CRLF) s
      in content_Printf (''Q'' @ CRLF) s)"

text \<open>
  \<open>DrawImage(image, ...)\<close> appends a copy of the image, gives the copy the next object
  number and writes the operators that place it.
\<close>

definition DrawImage ::
  "runtime \<Rightarrow> PDFImage \<Rightarrow> real \<Rightarrow> real \<Rightarrow> real \<Rightarrow> real \<Rightarrow> Draw2pdf \<Rightarrow> Draw2pdf" where
  "DrawImage rt img destX destY destWidth destHeight s0 =
     (let s = s0\<lparr>m_images := m_images s0 @ [img\<lparr>m_objNum := m_objNumber s0\<rparr>],
                 m_objNumber := m_objNumber s0 + 1\<rparr>;
          s = content_Printf (''q'' @ CRLF) s;
          scaleX = destWidth;
          scaleY = destHeight;
          offsetX = destX;
          offsetY = destY;
          s = content_Printf
                (fmt_lf rt scaleX @ '' '' @ fmt_lf rt 0 @ '' '' @ fmt_lf rt 0 @ '' '' @
                 fmt_lf rt scaleY @ '' '' @ fmt_lf rt offsetX @ '' '' @ fmt_lf rt offsetY @
                 '' cm'' @ CRLF) s;
          s = content_Printf (''/Im'' @ zu (length (m_images s) - 1) @ '' Do'' @ CRLF) s
      in content_Printf (''Q'' @ CRLF) s)"

text \<open>
  \<open>DrawImage(pixels, numX, numY, bpp, stride, ...)\<close>: \<open>pixels\<close> holds the bytes that can be
  read at the pointer; \<open>memcpy\<close> reads \<open>numY * stride\<close> of them.
\<close>

definition DrawImage_pixels ::
  "runtime \<Rightarrow> bytes \<Rightarrow> nat \<Rightarrow> nat \<Rightarrow> nat \<Rightarrow> nat \<Rightarrow> real \<Rightarrow> real \<Rightarrow> real \<Rightarrow> real \<Rightarrow>
   Draw2pdf \<Rightarrow> error + Draw2pdf" where
  "DrawImage_pixels rt pixels numX numY bpp stride destX destY destWidth destHeight s =
     (if length pixels < numY * stride then Inl UndefinedBehaviour
      else Inr (DrawImage rt
                  \<lparr>m_numX = numX, m_numY = numY, m_bpp = bpp, m_stride = stride, m_objNum = 0,
                   m_pixels = take (numY * stride) pixels\<rparr>
                  destX destY destWidth destHeight s))"

section \<open>draw2pdf.cpp: writing the file\<close>

text \<open>
  \<open>fprintf(m_file, ...)\<close> and \<open>fwrite(..., m_file)\<close> append to the open file, \<open>ftell(m_file)\<close>
  is the number of bytes written (the file is opened in binary mode).  The functions that
  write check first that the file is open: writing through the null pointer is where the
  program stops being defined.
\<close>

definition fprintf :: "bytes \<Rightarrow> Draw2pdf \<Rightarrow> Draw2pdf" where
  "fprintf text s = s\<lparr>m_file := map_option (\<lambda>f. f @ text) (m_file s)\<rparr>"

definition ftell :: "Draw2pdf \<Rightarrow> nat" where
  "ftell s = (case m_file s of None \<Rightarrow> 0 | Some f \<Rightarrow> length f)"

text \<open>\<open>m_crossRefs.push_back(PDFCrossRef(objnum, static_cast<size_t>(ftell(m_file))))\<close>\<close>

definition push_crossRef :: "nat \<Rightarrow> Draw2pdf \<Rightarrow> Draw2pdf" where
  "push_crossRef objnum s =
     s\<lparr>m_crossRefs := m_crossRefs s @ [\<lparr>m_objnum = objnum, m_offset = ftell s\<rparr>]\<rparr>"

text \<open>
  \<open>DeflateData\<close>: the output vector has \<open>numBytes + 8192\<close> bytes and is cut to the number of
  compressed bytes, which is set to 0 when \<open>compress\<close> does not return \<open>Z_OK\<close>.
\<close>

definition DeflateData :: "runtime \<Rightarrow> bytes \<Rightarrow> bytes" where
  "DeflateData rt data =
     (let capacity = length data + 8192;
          errcode = fst (zlib_compress rt capacity data);
          written = snd (zlib_compress rt capacity data);
          numCompressedBytes = (if errcode \<noteq> Z_OK then 0 else length written)
      in take numCompressedBytes (written @ replicate (capacity - length written) (CHR 0x00)))"

text \<open>
  The repacking loops of \<open>DoWriteImage\<close>.  \<open>inpixel\<close> and \<open>outpixel\<close> are positions in
  \<open>m_pixels\<close> and in \<open>rawData\<close>; a read or a write outside its vector is undefined.  The
  first argument of each loop counts the iterations that remain.
\<close>

fun copy_channels ::
  "nat \<Rightarrow> bytes \<Rightarrow> nat \<Rightarrow> nat \<Rightarrow> bytes \<Rightarrow> error + (nat \<times> nat \<times> bytes)" where
  "copy_channels 0 pixels inpixel outpixel rawData = Inr (inpixel, outpixel, rawData)"
| "copy_channels (Suc n) pixels inpixel outpixel rawData =
     (if inpixel < length pixels \<and> outpixel < length rawData
      then copy_channels n pixels (inpixel + 1) (outpixel + 1)
             (rawData[outpixel := pixels ! inpixel])
      else Inl UndefinedBehaviour)"

fun repack_scanline :: "PDFImage \<Rightarrow> nat \<Rightarrow> nat \<Rightarrow> nat \<Rightarrow> bytes \<Rightarrow> error + bytes" where
  "repack_scanline img 0 inpixel outpixel rawData = Inr rawData"
| "repack_scanline img (Suc n) inpixel outpixel rawData =
     (case copy_channels (if m_bpp img = 8 then 1 else 3) (m_pixels img)
             inpixel outpixel rawData of
        Inl e \<Rightarrow> Inl e
      | Inr (inpixel', outpixel', rawData') \<Rightarrow>
          repack_scanline img n (if m_bpp img = 32 then inpixel' + 1 else inpixel')
            outpixel' rawData')"

fun repack_rows :: "PDFImage \<Rightarrow> nat \<Rightarrow> nat \<Rightarrow> bytes \<Rightarrow> error + bytes" where
  "repack_rows img 0 y rawData = Inr rawData"
| "repack_rows img (Suc n) y rawData =
     (case repack_scanline img (m_numX img) (y * m_stride img)
             (y * m_numX img * m_bpp img div 8) rawData of
        Inl e \<Rightarrow> Inl e
      | Inr rawData' \<Rightarrow> repack_rows img n (y + 1) rawData')"

definition repack :: "PDFImage \<Rightarrow> error + bytes" where
  "repack img =
     repack_rows img (m_numY img) 0
       (replicate (m_numY img * m_numX img * m_bpp img div 8) (CHR 0x00))"

text \<open>\<open>DoWriteImage\<close>, in three parts: the dictionary, the repacking, the payload.\<close>

definition DoWriteImage_dict :: "PDFImage \<Rightarrow> nat \<Rightarrow> Draw2pdf \<Rightarrow> Draw2pdf" where
  "DoWriteImage_dict img index s0 =
     (let s = fprintf CRLF s0;
          s = push_crossRef (m_objNum img) s;
          s = fprintf (zu (m_objNum img) @ '' 0 obj'' @ CRLF) s;
          s = fprintf (''<<'' @ CRLF) s;
          s = fprintf (''/Type /XObject'' @ CRLF) s;
          s = fprintf (''/Subtype /Image'' @ CRLF) s;
          s = fprintf (''/Name /Im'' @ zu index @ CRLF) s;
          s = fprintf (''/Width '' @ zu (m_numX img) @ CRLF) s;
          s = fprintf (''/Height '' @ zu (m_numY img) @ CRLF) s;
          s = fprintf (''/BitsPerComponent 8'' @ CRLF) s
      in if m_bpp img = 8 then fprintf (''/ColorSpace /DeviceGray'' @ CRLF) s
         else fprintf (''/ColorSpace /DeviceRGB'' @ CRLF) s)"

definition encode_image :: "runtime \<Rightarrow> bool \<Rightarrow> bytes \<Rightarrow> bytes" where
  "encode_image rt compress rawData =
     (if compress then DeflateData rt rawData else EncodeToAscii85 rawData)"

definition DoWriteImage_payload :: "runtime \<Rightarrow> bool \<Rightarrow> bytes \<Rightarrow> Draw2pdf \<Rightarrow> Draw2pdf" where
  "DoWriteImage_payload rt compress rawData s0 =
     (let encodedData = encode_image rt compress rawData;
          s = (if compress
               then fprintf (''/Length '' @ zu (length encodedData) @ CRLF)
                      (fprintf (''/Filter /FlateDecode'' @ CRLF) s0)
               else fprintf (''/Length '' @ zu (length encodedData) @ CRLF)
                      (fprintf (''/Filter /ASCII85Decode'' @ CRLF) s0));
          s = fprintf (''>>'' @ CRLF) s;
          s = fprintf (''stream'' @ CRLF) s;
          s = fprintf encodedData s;
          s = fprintf CRLF s;
          s = fprintf (''endstream'' @ CRLF) s
      in fprintf (''endobj'' @ CRLF) s)"

definition DoWriteImage :: "runtime \<Rightarrow> nat \<Rightarrow> bool \<Rightarrow> Draw2pdf \<Rightarrow> error + Draw2pdf" where
  "DoWriteImage rt index compress s =
     (if m_file s = None \<or> \<not> index < length (m_images s) then Inl UndefinedBehaviour
      else
        (let img = m_images s ! index
         in case repack img of
              Inl e \<Rightarrow> Inl e
            | Inr rawData \<Rightarrow>
                Inr (DoWriteImage_payload rt compress rawData (DoWriteImage_dict img index s))))"

text \<open>
  \<open>DoBeginPage\<close> takes three object numbers by \<open>m_objNumber++\<close>: for the page, for its
  contents and for its table of images.  Nothing in between changes \<open>m_objNumber\<close>, so they
  are \<open>pageObjNumber\<close> and the two numbers after it.
\<close>

definition DoBeginPage :: "runtime \<Rightarrow> Draw2pdf \<Rightarrow> error + Draw2pdf" where
  "DoBeginPage rt s0 =
     (if m_file s0 = None then Inl UndefinedBehaviour
      else
        (let pageObjNumber = m_objNumber s0;
             s = s0\<lparr>m_objNumber := pageObjNumber + 1,
                     m_pageObjectNumbers := m_pageObjectNumbers s0 @ [pageObjNumber]\<rparr>;
             s = fprintf CRLF s;
             s = push_crossRef pageObjNumber s;
             s = fprintf (zu pageObjNumber @ '' 0 obj'' @ CRLF) s;
             s = fprintf (''<<'' @ CRLF) s;
             s = fprintf (''/Type /Page'' @ CRLF) s;
             s = fprintf (''/Parent '' @ zu (m_pagesObjNumber s0) @ '' 0 R'' @ CRLF) s;
             s = fprintf
                   (''/MediaBox [ '' @ fmt_lf rt (pt_x (m_pageMinimumPoints s0)) @ '' '' @
                    fmt_lf rt (pt_y (m_pageMinimumPoints s0)) @ '' '' @
                    fmt_lf rt (pt_x (m_pageMaximumPoints s0)) @ '' '' @
                    fmt_lf rt (pt_y (m_pageMaximumPoints s0)) @ '' ]'' @ CRLF) s;
             s = s\<lparr>m_contentsObjNumber := pageObjNumber + 1, m_objNumber := pageObjNumber + 2\<rparr>;
             s = fprintf (''/Contents '' @ zu (pageObjNumber + 1) @ '' 0 R'' @ CRLF) s;
             s = fprintf (''/Resources'' @ CRLF) s;
             s = fprintf (''<<'' @ CRLF) s;
             s = fprintf (''/ProcSet [ /PDF /Text /ImageB /ImageC /ImageI ]'' @ CRLF) s;
             s = s\<lparr>m_xobjectObjNumber := pageObjNumber + 2, m_objNumber := pageObjNumber + 3\<rparr>;
             s = fprintf (''/XObject '' @ zu (pageObjNumber + 2) @ '' 0 R'' @ CRLF) s;
             s = fprintf (''>>'' @ CRLF) s;
             s = fprintf (''>>'' @ CRLF) s
         in Inr (fprintf (''endobj'' @ CRLF) s)))"

text \<open>The content-stream object of \<open>DoEndPage\<close>.\<close>

definition DoEndPage_contents :: "runtime \<Rightarrow> Draw2pdf \<Rightarrow> Draw2pdf" where
  "DoEndPage_contents rt s0 =
     (let s = fprintf CRLF s0;
          s = push_crossRef (m_contentsObjNumber s0) s;
          s = fprintf (zu (m_contentsObjNumber s0) @ '' 0 obj'' @ CRLF) s;
          s = fprintf (''<<'' @ CRLF) s;
          content = m_data (m_contentStream s0)
      in if \<not> m_compressContent s0
         then
           (let s = fprintf (''/Length '' @ zu (length content) @ CRLF) s;
                s = fprintf (''>>'' @ CRLF) s;
                s = fprintf (''stream'' @ CRLF) s;
                s = fprintf content s;
                s = fprintf CRLF s;
                s = fprintf (''endstream'' @ CRLF) s
            in fprintf (''endobj'' @ CRLF) s)
         else
           (let encodedData = DeflateData rt content;
                s = fprintf (''/Filter /FlateDecode'' @ CRLF) s;
                s = fprintf (''/Length '' @ zu (length encodedData) @ CRLF) s;
                s = fprintf (''>>'' @ CRLF) s;
                s = fprintf (''stream'' @ CRLF) s;
                s = fprintf encodedData s;
                s = fprintf CRLF s;
                s = fprintf (''endstream'' @ CRLF) s
            in fprintf (''endobj'' @ CRLF) s))"

text \<open>
  The two loops of \<open>DoEndPage\<close> over \<open>m_images\<close>, which neither of them changes; the first
  argument counts the iterations that remain.
\<close>

fun DoEndPage_names :: "nat \<Rightarrow> nat \<Rightarrow> Draw2pdf \<Rightarrow> Draw2pdf" where
  "DoEndPage_names 0 index s = s"
| "DoEndPage_names (Suc n) index s =
     DoEndPage_names n (index + 1)
       (fprintf (''/Im'' @ zu index @ '' '' @ zu (m_objNum (m_images s ! index)) @
                 '' 0 R'' @ CRLF) s)"

fun DoEndPage_images :: "runtime \<Rightarrow> nat \<Rightarrow> nat \<Rightarrow> Draw2pdf \<Rightarrow> error + Draw2pdf" where
  "DoEndPage_images rt 0 index s = Inr s"
| "DoEndPage_images rt (Suc n) index s =
     (case DoWriteImage rt index (m_compressImages s) s of
        Inl e \<Rightarrow> Inl e
      | Inr s' \<Rightarrow> DoEndPage_images rt n (index + 1) s')"

definition DoEndPage_xobjects :: "Draw2pdf \<Rightarrow> Draw2pdf" where
  "DoEndPage_xobjects s0 =
     (let s = fprintf CRLF s0;
          s = push_crossRef (m_xobjectObjNumber s0) s;
          s = fprintf (zu (m_xobjectObjNumber s0) @ '' 0 obj'' @ CRLF) s;
          s = fprintf (''<<'' @ CRLF) s;
          s = DoEndPage_names (length (m_images s0)) 0 s;
          s = fprintf (''>>'' @ CRLF) s
      in fprintf (''endobj'' @ CRLF) s)"

definition DoEndPage :: "runtime \<Rightarrow> Draw2pdf \<Rightarrow> error + Draw2pdf" where
  "DoEndPage rt s0 =
     (if m_file s0 = None then Inl UndefinedBehaviour
      else
        (let s = DoEndPage_contents rt s0;
             s = DoEndPage_xobjects s
         in case DoEndPage_images rt (length (m_images s)) 0 s of
              Inl e \<Rightarrow> Inl e
            | Inr s' \<Rightarrow> Inr (s'\<lparr>m_contentStream := \<lparr>m_data = []\<rparr>, m_images := []\<rparr>)))"

definition NextPage :: "runtime \<Rightarrow> Draw2pdf \<Rightarrow> error + Draw2pdf" where
  "NextPage rt s =
     (case DoEndPage rt s of
        Inl e \<Rightarrow> Inl e
      | Inr s' \<Rightarrow> DoBeginPage rt s')"

section \<open>draw2pdf.cpp: opening and closing\<close>

text \<open>The Pages object written by \<open>Close\<close>.\<close>

definition Close_pages :: "Draw2pdf \<Rightarrow> Draw2pdf" where
  "Close_pages s0 =
     (let s = fprintf CRLF s0;
          s = push_crossRef (m_pagesObjNumber s0) s;
          s = fprintf (zu (m_pagesObjNumber s0) @ '' 0 obj'' @ CRLF) s;
          s = fprintf (''<<'' @ CRLF) s;
          s = fprintf ''/Type /Pages /Kids ['' s;
          s = foldl (\<lambda>s objnum. fprintf (zu objnum @ '' 0 R '') s) s (m_pageObjectNumbers s0);
          s = fprintf ('']'' @ CRLF) s;
          s = fprintf (''/Count '' @ zu (length (m_pageObjectNumbers s0)) @ CRLF) s;
          s = fprintf (''>>'' @ CRLF) s
      in fprintf (''endobj'' @ CRLF) s)"

text \<open>
  The number that \<open>Close\<close> prints on the first line of the table and after \<open>/Size\<close>:
  \<open>m_crossRefs.size() + 1\<close>.
\<close>

definition xref_count :: "Draw2pdf \<Rightarrow> nat" where
  "xref_count s = length (m_crossRefs s) + 1"

text \<open>
  \<open>std::sort\<close> with the comparison \<open>a.m_objnum < b.m_objnum\<close> is \<^term>\<open>sort_key m_objnum\<close>;
  the standard leaves the order of entries with equal numbers open, and a session has no
  two entries with the same number.  \<open>idnum\<close> is the value of
  \<open>static_cast<int>(time(&tt)) + rand()\<close>.
\<close>

definition Close_xref :: "int \<Rightarrow> Draw2pdf \<Rightarrow> Draw2pdf" where
  "Close_xref idnum s0 =
     (let s1 = s0\<lparr>m_crossRefs := sort_key m_objnum (m_crossRefs s0)\<rparr>;
          s = fprintf CRLF s1;
          xrefTableOffset = ftell s;
          s = fprintf (''xref'' @ CRLF) s;
          s = fprintf (''0 '' @ zu (xref_count s1) @ CRLF) s;
          s = fprintf (''0000000000 65535 f'' @ CRLF) s;
          s = foldl (\<lambda>s xref. fprintf (fmt_010zu (m_offset xref) @ '' 00000 n'' @ CRLF) s) s
                (m_crossRefs s1);
          s = fprintf (''trailer'' @ CRLF) s;
          s = fprintf (''<< '' @ CRLF) s;
          s = fprintf (''/ID[<'' @ fmt_032d idnum @ ''><'' @ fmt_032d idnum @ ''>]'' @ CRLF) s;
          s = fprintf (''/Size '' @ zu (xref_count s1) @ '' /Root 1 0 R >>'' @ CRLF) s;
          s = fprintf (''startxref'' @ CRLF) s;
          s = fprintf (zu xrefTableOffset @ CRLF) s
      in fprintf (''%%EOF'' @ CRLF) s)"

text \<open>
  \<open>Close\<close> up to the end-of-file marker: the last page, the Pages object, the sorted table.
  It is only entered with an open file.
\<close>

definition Close_write :: "runtime \<Rightarrow> int \<Rightarrow> Draw2pdf \<Rightarrow> error + Draw2pdf" where
  "Close_write rt idnum s =
     (case DoEndPage rt s of
        Inl e \<Rightarrow> Inl e
      | Inr s' \<Rightarrow> Inr (Close_xref idnum (Close_pages s')))"

text \<open>The rest of \<open>Close\<close>: \<open>fclose\<close> and the reset of the members.\<close>

definition Close_reset :: "Draw2pdf \<Rightarrow> Draw2pdf" where
  "Close_reset s =
     s\<lparr>closed_files := closed_files s @ (case m_file s of None \<Rightarrow> [] | Some f \<Rightarrow> [f]),
       m_file := None,
       m_lineStyle := PDFLineStyle_default,
       m_fillStyle := PDFFillStyle_default,
       m_textStyle := PDFTextStyle_default,
       m_crossRefs := [],
       m_objNumber := 1,
       m_catalogObjNumber := 0,
       m_pagesObjNumber := 0,
       m_pageObjectNumbers := [],
       m_contentStream := \<lparr>m_data = []\<rparr>,
       m_images := []\<rparr>"

definition Close :: "runtime \<Rightarrow> int \<Rightarrow> Draw2pdf \<Rightarrow> error + Draw2pdf" where
  "Close rt idnum s =
     (if m_file s = None then Inr s
      else case Close_write rt idnum s of
             Inl e \<Rightarrow> Inl e
           | Inr s' \<Rightarrow> Inr (Close_reset s'))"

text \<open>
  The part of \<open>Open\<close> between \<open>_wfopen_s\<close> and \<open>DoBeginPage\<close>: the signature and the
  catalog object.  The catalog and the Pages object take two object numbers by
  \<open>m_objNumber++\<close>, one after the other.
\<close>

definition Open_catalog :: "Draw2pdf \<Rightarrow> Draw2pdf" where
  "Open_catalog s0 =
     (let s = fprintf (''%PDF-1.4'' @ CRLF) s0;
          s = fprintf ([CHR ''%'', CHR 0xC0, CHR 0xE1, CHR 0xD2, CHR 0xC3, CHR 0xB4] @ CRLF) s;
          s = fprintf (''%PDF file generated by draw2pdf.lib'' @ CRLF) s;
          s = s\<lparr>m_catalogObjNumber := m_objNumber s0,
                  m_pagesObjNumber := m_objNumber s0 + 1,
                  m_objNumber := m_objNumber s0 + 2\<rparr>;
          s = fprintf CRLF s;
          s = push_crossRef (m_objNumber s0) s;
          s = fprintf (zu (m_objNumber s0) @ '' 0 obj'' @ CRLF) s;
          s = fprintf (''<<'' @ CRLF) s;
          s = fprintf (''/Type /Catalog'' @ CRLF) s;
          s = fprintf (''/Pages '' @ zu (m_objNumber s0 + 1) @ '' 0 R'' @ CRLF) s;
          s = fprintf (''>>'' @ CRLF) s
      in fprintf (''endobj'' @ CRLF) s)"

text \<open>
  \<open>Open\<close> closes the file that is still open, if any (\<open>idnum\<close> is for that \<open>Close\<close>),
  throws when the new file cannot be opened, and otherwise writes the signature and the
  catalog and begins the first page.  The exception carries the line of the \<open>throw\<close> and the
  message, a wide string.
\<close>

definition Open ::
  "runtime \<Rightarrow> int \<Rightarrow> wstring \<Rightarrow> PDFPoint \<Rightarrow> PDFPoint \<Rightarrow> Draw2pdf \<Rightarrow> error + Draw2pdf" where
  "Open rt idnum filename pageMinimumPoints pageMaximumPoints s0 =
     (case Close rt idnum s0 of
        Inl e \<Rightarrow> Inl e
      | Inr s1 \<Rightarrow>
          (let s = s1\<lparr>m_pageMinimumPoints := pageMinimumPoints,
                       m_pageMaximumPoints := pageMaximumPoints\<rparr>
           in if \<not> wfopen_ok rt filename
              then Inl (PDFException 142
                          (map of_char ''Failed opening file for writing:  '' @ filename))
              else DoBeginPage rt (Open_catalog (s\<lparr>m_file := Some []\<rparr>))))"

section \<open>Call sequences\<close>

text \<open>The public calls that can follow \<open>Open\<close> while the document is open.\<close>

datatype call =
    CallSetLineStyle PDFLineStyle
  | CallSetFillStyle PDFFillStyle
  | CallSetTextStyle PDFTextStyle
  | CallDrawLine PDFPoint PDFPoint
  | CallDrawPolyline "PDFPoint list"
  | CallDrawPolygon "PDFPoint list"
  | CallDrawRectangle PDFBox
  | CallDrawTextString PDFPoint wstring
  | CallDrawImage PDFImage real real real real
  | CallDrawImage_pixels bytes nat nat nat nat real real real real
  | CallNextPage
  | CallEnableImageCompression bool
  | CallEnableContentCompression bool

fun do_call :: "runtime \<Rightarrow> call \<Rightarrow> Draw2pdf \<Rightarrow> error + Draw2pdf" where
  "do_call rt (CallSetLineStyle style) s = Inr (SetLineStyle rt style s)"
| "do_call rt (CallSetFillStyle style) s = Inr (SetFillStyle rt style s)"
| "do_call rt (CallSetTextStyle style) s = Inr (SetTextStyle style s)"
| "do_call rt (CallDrawLine pt1 pt2) s = Inr (DrawLine rt pt1 pt2 s)"
| "do_call rt (CallDrawPolyline points) s = Inr (DrawPolyline rt points s)"
| "do_call rt (CallDrawPolygon points) s = Inr (DrawPolygon rt points s)"
| "do_call rt (CallDrawRectangle box) s = Inr (DrawRectangle rt box s)"
| "do_call rt (CallDrawTextString point text) s = Inr (DrawTextString rt point text s)"
| "do_call rt (CallDrawImage img dx dy dw dh) s = Inr (DrawImage rt img dx dy dw dh s)"
| "do_call rt (CallDrawImage_pixels pixels numX numY bpp stride dx dy dw dh) s =
     DrawImage_pixels rt pixels numX numY bpp stride dx dy dw dh s"
| "do_call rt CallNextPage s = NextPage rt s"
| "do_call rt (CallEnableImageCompression enable) s = Inr (s\<lparr>m_compressImages := enable\<rparr>)"
| "do_call rt (CallEnableContentCompression enable) s = Inr (s\<lparr>m_compressContent := enable\<rparr>)"

fun do_calls :: "runtime \<Rightarrow> call list \<Rightarrow> Draw2pdf \<Rightarrow> error + Draw2pdf" where
  "do_calls rt [] s = Inr s"
| "do_calls rt (c # cs) s =
     (case do_call rt c s of
        Inl e \<Rightarrow> Inl e
      | Inr s' \<Rightarrow> do_calls rt cs s')"

section \<open>Notions used in the statements\<close>

text \<open>
  The values of \<open>bufferSize\<close> that the loop of \<open>Printf\<close> goes through when no attempt
  succeeds.
\<close>

function Printf_sizes :: "nat \<Rightarrow> nat list" where
  "Printf_sizes bufferSize =
     (if 0 < bufferSize \<and> bufferSize < 16384
      then bufferSize # Printf_sizes (bufferSize * 2)
      else [])"
  by pat_completeness auto
termination
  by (relation "measure (\<lambda>bufferSize. 16384 - bufferSize)") auto

declare Printf_sizes.simps [simp del]

text \<open>The bytes that \<open>path_loop\<close> appends to the content stream.\<close>

fun path_text :: "runtime \<Rightarrow> PDFPoint list \<Rightarrow> bool \<Rightarrow> string" where
  "path_text rt [] first = []"
| "path_text rt (point # points) first =
     Printf_loop 32
       (fmt_lf rt (pt_x point) @ '' '' @ fmt_lf rt (pt_y point) @ '' '' @
        [if first then CHR ''m'' else CHR ''l''] @ CRLF) @
     path_text rt points False"

text \<open>
  What \<open>%lf\<close> can print: at most 317 characters (the largest \<open>double\<close> has 309 digits
  before the point), none of them NUL.
\<close>

definition fmt_lf_ok :: "runtime \<Rightarrow> bool" where
  "fmt_lf_ok rt \<longleftrightarrow> (\<forall>v. length (fmt_lf rt v) \<le> 317 \<and> CHR 0x00 \<notin> set (fmt_lf rt v))"

text \<open>
  A runtime for the examples: every number prints as \<open>0.000000\<close>, the compressor stores
  its input unchanged, every file can be opened.  In the second one the compressor fails
  with \<open>Z_BUF_ERROR\<close>.
\<close>

definition example_runtime :: runtime where
  "example_runtime =
     \<lparr>fmt_lf = (\<lambda>v. ''0.000000''),
      zlib_compress = (\<lambda>capacity src. (0, src)),
      wfopen_ok = (\<lambda>name. True)\<rparr>"

definition failing_runtime :: runtime where
  "failing_runtime =
     \<lparr>fmt_lf = (\<lambda>v. ''0.000000''),
      zlib_compress = (\<lambda>capacity src. (- 5, [])),
      wfopen_ok = (\<lambda>name. True)\<rparr>"

definition example_image :: PDFImage where
  "example_image =
     \<lparr>m_numX = 1, m_numY = 2, m_bpp = 32, m_stride = 4, m_objNum = 0,
      m_pixels = [CHR 0x01, CHR 0x02, CHR 0x03, CHR 0x04,
                  CHR 0x05, CHR 0x06, CHR 0x07, CHR 0x08]\<rparr>"

text \<open>
  Three views of a state for the reasoning about the functions that write: the members
  other than \<open>m_file\<close> and \<open>m_crossRefs\<close>, the object numbers recorded in \<open>m_crossRefs\<close>,
  and whether the file is open.
\<close>

definition frame :: "Draw2pdf \<Rightarrow> Draw2pdf" where
  "frame s = s\<lparr>m_file := None, m_crossRefs := []\<rparr>"

definition recorded :: "Draw2pdf \<Rightarrow> nat list" where
  "recorded s = map m_objnum (m_crossRefs s)"

definition is_open :: "Draw2pdf \<Rightarrow> bool" where
  "is_open s \<longleftrightarrow> m_file s \<noteq> None"

text \<open>
  The object numbers that are reserved but whose objects are not written yet while a page
  is open: the Pages object, the contents and the image table of the page, and the images
  drawn on the page.
\<close>

definition pending :: "Draw2pdf \<Rightarrow> nat list" where
  "pending s =
     [m_pagesObjNumber s, m_contentsObjNumber s, m_xobjectObjNumber s] @
     map m_objNum (m_images s)"

definition numbers :: "Draw2pdf \<Rightarrow> bool \<times> nat list \<times> nat list \<times> nat" where
  "numbers s = (is_open s, recorded s, pending s, m_objNumber s)"

text \<open>
  The invariant of a session.  While a page is open, the recorded and the pending numbers
  together are the numbers from 1 up to \<open>m_objNumber\<close>, each once; between \<open>DoEndPage\<close>
  and the next \<open>DoBeginPage\<close> only the Pages object is pending.
\<close>

definition page_inv :: "Draw2pdf \<Rightarrow> bool" where
  "page_inv s \<longleftrightarrow>
     is_open s \<and> distinct (recorded s @ pending s) \<and>
     set (recorded s @ pending s) = {1..<m_objNumber s}"

definition ended_inv :: "Draw2pdf \<Rightarrow> bool" where
  "ended_inv s \<longleftrightarrow>
     is_open s \<and> m_images s = [] \<and> distinct (recorded s @ [m_pagesObjNumber s]) \<and>
     set (recorded s @ [m_pagesObjNumber s]) = {1..<m_objNumber s}"

text \<open>
  A document that is not open and has nothing left from a session: the state of a new
  \<open>Draw2pdf\<close> and the state that \<open>Close\<close> leaves.
\<close>

definition closed_document :: "Draw2pdf \<Rightarrow> bool" where
  "closed_document s \<longleftrightarrow>
     m_file s = None \<and> m_crossRefs s = [] \<and> m_objNumber s = 1 \<and> m_images s = []"

text \<open>
  The bytes that \<open>Close\<close> writes after the Pages object, from the empty line before \<open>xref\<close> to
  the end-of-file marker, for the table \<open>entries\<close> and the offset of the \<open>xref\<close> line.
\<close>

definition xref_section :: "int \<Rightarrow> nat \<Rightarrow> PDFCrossRef list \<Rightarrow> string" where
  "xref_section idnum xrefTableOffset entries =
     CRLF @ ''xref'' @ CRLF @
     ''0 '' @ zu (length entries + 1) @ CRLF @
     ''0000000000 65535 f'' @ CRLF @
     concat (map (\<lambda>xref. fmt_010zu (m_offset xref) @ '' 00000 n'' @ CRLF) entries) @
     ''trailer'' @ CRLF @
     ''<< '' @ CRLF @
     ''/ID[<'' @ fmt_032d idnum @ ''><'' @ fmt_032d idnum @ ''>]'' @ CRLF @
     ''/Size '' @ zu (length entries + 1) @ '' /Root 1 0 R >>'' @ CRLF @
     ''startxref'' @ CRLF @
     zu xrefTableOffset @ CRLF @
     ''%%EOF'' @ CRLF"

section \<open>A decoder for the Base-85 encoding\<close>

text \<open>
  The repository only encodes; the encoded data is read by the program that displays the
  document.  The round trip is stated against the decoder below, which follows the rules
  of the encoding (the reference named in \<open>ascii85.h\<close>, and the \<open>ASCII85Decode\<close> filter).
\<close>

text \<open>Characters that a decoder skips: NUL, tab, line feed, form feed, return, space.\<close>

definition is_white :: "char \<Rightarrow> bool" where
  "is_white c \<longleftrightarrow> c \<in> {CHR 0x00, CHR 0x09, CHR 0x0A, CHR 0x0C, CHR 0x0D, CHR '' ''}"

text \<open>The digits of the encoding are the characters from \<open>!\<close> (33) to \<open>u\<close> (117).\<close>

definition is_digit85 :: "char \<Rightarrow> bool" where
  "is_digit85 c \<longleftrightarrow> (33::nat) \<le> of_char c \<and> (of_char c :: nat) \<le> 117"

text \<open>The value of a group of digits, most significant digit first.\<close>

definition group_value :: "nat list \<Rightarrow> nat" where
  "group_value ds = foldl (\<lambda>v d. v * 85 + d) 0 ds"

text \<open>The four bytes of a 32-bit value, most significant byte first.\<close>

definition group_bytes :: "nat \<Rightarrow> string" where
  "group_bytes v =
     [char_of (v div 2 ^ 24), char_of (v div 2 ^ 16), char_of (v div 2 ^ 8), char_of v]"

text \<open>
  The end of the data: no digit is left over, or a last group of two to four digits, which
  is filled up with the digit 84 (\<open>u\<close>) and gives one byte less than it has digits.  A
  single digit cannot be decoded.
\<close>

definition decode_rest :: "nat list \<Rightarrow> string option" where
  "decode_rest ds =
     (if ds = [] then Some []
      else if length ds = 1 then None
      else (let v = group_value (ds @ replicate (5 - length ds) 84)
            in if v < 2 ^ 32 then Some (take (length ds - 1) (group_bytes v)) else None))"

text \<open>
  The decoder reads the text from the left; \<open>ds\<close> holds the digits of the group that is
  being read.  It skips white space, stops at \<open>~\<close> (the start of the end mark \<open>~>\<close>) and at
  the end of the text, turns \<open>z\<close> between two groups into four zero bytes and five digits
  into four bytes, and fails on any other character, on a \<open>z\<close> inside a group and on a
  group whose value does not fit into 32 bits.
\<close>

fun decode_loop :: "string \<Rightarrow> nat list \<Rightarrow> string option" where
  "decode_loop [] ds = decode_rest ds"
| "decode_loop (c # cs) ds =
     (if is_white c then decode_loop cs ds
      else if c = CHR ''~'' then decode_rest ds
      else if c = CHR ''z''
      then (if ds = []
            then map_option (\<lambda>out. replicate 4 (CHR 0x00) @ out) (decode_loop cs [])
            else None)
      else if is_digit85 c
      then (if length ds = 4
            then (let v = group_value (ds @ [of_char c - 33])
                  in if v < 2 ^ 32
                     then map_option (\<lambda>out. group_bytes v @ out) (decode_loop cs [])
                     else None)
            else decode_loop cs (ds @ [of_char c - 33]))
      else None)"

definition DecodeAscii85 :: "string \<Rightarrow> string option" where
  "DecodeAscii85 text = decode_loop text []"

text \<open>
  The output of the encoder without its line breaks, group by group: \<open>group_chars v n\<close> is
  the first \<open>n\<close> of the five digits of \<open>v\<close> as characters, \<open>encode_groups\<close> encodes every
  full group of four bytes by \<open>z\<close> or by five digits and a last group of one to three bytes
  by two to four digits.
\<close>

definition group_chars :: "nat \<Rightarrow> nat \<Rightarrow> string" where
  "group_chars v n = map (\<lambda>d. char_of (d + 33)) (take n (rev (expand_tuple 5 v)))"

fun encode_groups :: "string \<Rightarrow> string" where
  "encode_groups (a # b # c # d # rest) =
     (if of_char a * 2 ^ 24 + of_char b * 2 ^ 16 + of_char c * 2 ^ 8 + of_char d = (0::nat)
      then ''z''
      else group_chars (of_char a * 2 ^ 24 + of_char b * 2 ^ 16 + of_char c * 2 ^ 8 + of_char d) 5) @
     encode_groups rest"
| "encode_groups [] = []"
| "encode_groups [a] = group_chars (of_char a * 2 ^ 24) 2"
| "encode_groups [a, b] = group_chars (of_char a * 2 ^ 24 + of_char b * 2 ^ 16) 3"
| "encode_groups [a, b, c] =
     group_chars (of_char a * 2 ^ 24 + of_char b * 2 ^ 16 + of_char c * 2 ^ 8) 4"

text \<open>The number of full groups of four bytes that are all zero.\<close>

fun zero_groups :: "string \<Rightarrow> nat" where
  "zero_groups (a # b # c # d # rest) =
     (if a = CHR 0x00 \<and> b = CHR 0x00 \<and> c = CHR 0x00 \<and> d = CHR 0x00 then 1 else 0) +
     zero_groups rest"
| "zero_groups partial = 0"

text \<open>A text without the characters that a decoder skips.\<close>

definition stripped :: "string \<Rightarrow> string" where
  "stripped text = filter (\<lambda>c. \<not> is_white c) text"

section \<open>Lemmas\<close>

lemma Printf_loop_fits: "0 < b \<Longrightarrow> b < 16384 \<Longrightarrow> length text < b \<Longrightarrow> Printf_loop b text = c_str text"
  by (subst Printf_loop.simps) (simp add: vsnprintf_s_def)

lemma Printf_loop_grow: "0 < b \<Longrightarrow> b < 16384 \<Longrightarrow> \<not> length text < b \<Longrightarrow> Printf_loop b text = Printf_loop (b * 2) text"
  by (subst Printf_loop.simps) (simp add: vsnprintf_s_def)

lemma Printf_loop_stop: "\<not> b < 16384 \<Longrightarrow> Printf_loop b text = []"
  by (subst Printf_loop.simps) simp

lemma Printf_loop_step:
  "0 < b \<Longrightarrow> b \<le> 8192 \<Longrightarrow>
      Printf_loop (b * 2) text = (if length text < 8192 then c_str text else []) \<Longrightarrow>
      Printf_loop b text = (if length text < 8192 then c_str text else [])"
  by (cases "length text < b") (simp_all add: Printf_loop_fits Printf_loop_grow)

lemma Printf_loop_32: "Printf_loop 32 text = (if length text < 8192 then c_str text else [])"
proof -
  have h8192: "Printf_loop 8192 text = (if length text < 8192 then c_str text else [])"
    by (cases "length text < 8192") (simp_all add: Printf_loop_fits Printf_loop_grow Printf_loop_stop)
  have h4096: "Printf_loop 4096 text = (if length text < 8192 then c_str text else [])"
    by (rule Printf_loop_step) (simp_all add: h8192)
  have h2048: "Printf_loop 2048 text = (if length text < 8192 then c_str text else [])"
    by (rule Printf_loop_step) (simp_all add: h4096)
  have h1024: "Printf_loop 1024 text = (if length text < 8192 then c_str text else [])"
    by (rule Printf_loop_step) (simp_all add: h2048)
  have h512: "Printf_loop 512 text = (if length text < 8192 then c_str text else [])"
    by (rule Printf_loop_step) (simp_all add: h1024)
  have h256: "Printf_loop 256 text = (if length text < 8192 then c_str text else [])"
    by (rule Printf_loop_step) (simp_all add: h512)
  have h128: "Printf_loop 128 text = (if length text < 8192 then c_str text else [])"
    by (rule Printf_loop_step) (simp_all add: h256)
  have h64: "Printf_loop 64 text = (if length text < 8192 then c_str text else [])"
    by (rule Printf_loop_step) (simp_all add: h128)
  show ?thesis
    by (rule Printf_loop_step) (simp_all add: h64)
qed

lemma c_str_id: "CHR 0x00 \<notin> set t \<Longrightarrow> c_str t = t"
  by (auto simp add: c_str_def)

lemma Printf_sizes_32: "Printf_sizes 32 = [32, 64, 128, 256, 512, 1024, 2048, 4096, 8192]"
  by (simp add: Printf_sizes.simps)

lemma Printf_short: "length t < 8192 \<Longrightarrow> CHR 0x00 \<notin> set t \<Longrightarrow> Printf_loop 32 t = t"
  by (simp add: Printf_loop_32 c_str_id)

lemma content_Printf_short:
  "length t < 8192 \<Longrightarrow> CHR 0x00 \<notin> set t \<Longrightarrow>
   content_Printf t s = s\<lparr>m_contentStream := AddData t (m_contentStream s)\<rparr>"
  by (simp add: content_Printf_def Printf_def Printf_short)

lemma AddData_AddData: "AddData b (AddData a acc) = AddData (a @ b) acc"
  by (simp add: AddData_def)

lemma path_loop_eq:
  "path_loop rt points first s =
     s\<lparr>m_contentStream := AddData (path_text rt points first) (m_contentStream s)\<rparr>"
proof (induction points arbitrary: first s)
  case Nil
  show ?case by (simp add: AddData_def)
next
  case (Cons point points)
  show ?case
    by (simp add: Cons.IH content_Printf_def Printf_def AddData_AddData)
qed

lemma frame_fprintf [simp]: "frame (fprintf t s) = frame s"
  by (simp add: frame_def fprintf_def)

lemma recorded_fprintf [simp]: "recorded (fprintf t s) = recorded s"
  by (simp add: recorded_def fprintf_def)

lemma is_open_fprintf [simp]: "is_open (fprintf t s) = is_open s"
  by (simp add: is_open_def fprintf_def)

lemma frame_push_crossRef [simp]: "frame (push_crossRef n s) = frame s"
  by (simp add: frame_def push_crossRef_def)

lemma recorded_push_crossRef [simp]: "recorded (push_crossRef n s) = recorded s @ [n]"
  by (simp add: recorded_def push_crossRef_def)

lemma is_open_push_crossRef [simp]: "is_open (push_crossRef n s) = is_open s"
  by (simp add: is_open_def push_crossRef_def)

lemma frame_members:
  "m_pageMinimumPoints (frame s) = m_pageMinimumPoints s"
  "m_pageMaximumPoints (frame s) = m_pageMaximumPoints s"
  "m_lineStyle (frame s) = m_lineStyle s"
  "m_fillStyle (frame s) = m_fillStyle s"
  "m_textStyle (frame s) = m_textStyle s"
  "m_objNumber (frame s) = m_objNumber s"
  "m_catalogObjNumber (frame s) = m_catalogObjNumber s"
  "m_pagesObjNumber (frame s) = m_pagesObjNumber s"
  "m_contentsObjNumber (frame s) = m_contentsObjNumber s"
  "m_xobjectObjNumber (frame s) = m_xobjectObjNumber s"
  "m_pageObjectNumbers (frame s) = m_pageObjectNumbers s"
  "m_contentStream (frame s) = m_contentStream s"
  "m_images (frame s) = m_images s"
  "m_compressImages (frame s) = m_compressImages s"
  "m_compressContent (frame s) = m_compressContent s"
  "closed_files (frame s) = closed_files s"
  by (simp_all add: frame_def)

lemma frame_eqD:
  assumes "frame s' = frame s"
  shows "m_lineStyle s' = m_lineStyle s" "m_fillStyle s' = m_fillStyle s"
    "m_textStyle s' = m_textStyle s" "m_objNumber s' = m_objNumber s"
    "m_pagesObjNumber s' = m_pagesObjNumber s" "m_contentsObjNumber s' = m_contentsObjNumber s"
    "m_xobjectObjNumber s' = m_xobjectObjNumber s" "m_contentStream s' = m_contentStream s"
    "m_images s' = m_images s" "m_compressImages s' = m_compressImages s"
    "m_pageObjectNumbers s' = m_pageObjectNumbers s"
  using assms frame_members by metis+

lemma DoWriteImage_dict_frame [simp]:
  "frame (DoWriteImage_dict img index s) = frame s"
  "recorded (DoWriteImage_dict img index s) = recorded s @ [m_objNum img]"
  "is_open (DoWriteImage_dict img index s) = is_open s"
  by (simp_all add: DoWriteImage_dict_def Let_def)

lemma DoWriteImage_payload_frame [simp]:
  "frame (DoWriteImage_payload rt compress rawData s) = frame s"
  "recorded (DoWriteImage_payload rt compress rawData s) = recorded s"
  "is_open (DoWriteImage_payload rt compress rawData s) = is_open s"
  by (simp_all add: DoWriteImage_payload_def Let_def)

lemma DoWriteImage_frame:
  assumes "DoWriteImage rt index compress s = Inr s'"
  shows "frame s' = frame s" "recorded s' = recorded s @ [m_objNum (m_images s ! index)]"
    "is_open s'" "index < length (m_images s)"
  using assms
  by (auto simp add: DoWriteImage_def Let_def is_open_def[of s] split: if_splits sum.splits)

lemma DoEndPage_contents_frame [simp]:
  "frame (DoEndPage_contents rt s) = frame s"
  "recorded (DoEndPage_contents rt s) = recorded s @ [m_contentsObjNumber s]"
  "is_open (DoEndPage_contents rt s) = is_open s"
  by (simp_all add: DoEndPage_contents_def Let_def)

lemma DoEndPage_names_frame [simp]:
  "frame (DoEndPage_names n index s) = frame s"
  "recorded (DoEndPage_names n index s) = recorded s"
  "is_open (DoEndPage_names n index s) = is_open s"
  by (induction n arbitrary: index s; simp)+

lemma DoEndPage_xobjects_frame [simp]:
  "frame (DoEndPage_xobjects s) = frame s"
  "recorded (DoEndPage_xobjects s) = recorded s @ [m_xobjectObjNumber s]"
  "is_open (DoEndPage_xobjects s) = is_open s"
  by (simp_all add: DoEndPage_xobjects_def Let_def)

lemma DoEndPage_images_frame:
  assumes "DoEndPage_images rt n index s = Inr s'" "is_open s"
  shows "frame s' = frame s \<and>
         recorded s' = recorded s @ map m_objNum (take n (drop index (m_images s))) \<and>
         is_open s' \<and> index + n \<le> length (m_images s) + (if n = 0 then index else 0)"
  using assms
proof (induction n arbitrary: index s)
  case 0
  then show ?case by simp
next
  case (Suc n)
  from Suc.prems obtain s1 where
    w: "DoWriteImage rt index (m_compressImages s) s = Inr s1" and
    r: "DoEndPage_images rt n (index + 1) s1 = Inr s'"
    by (auto split: sum.splits)
  note f = DoWriteImage_frame[OF w]
  have im: "m_images s1 = m_images s" using f(1) by (rule frame_eqD)
  from Suc.IH[OF r f(3)] have ih: "frame s' = frame s1"
    "recorded s' = recorded s1 @ map m_objNum (take n (drop (index + 1) (m_images s1)))"
    "is_open s'" "index + 1 + n \<le> length (m_images s1) + (if n = 0 then index + 1 else 0)"
    by simp_all
  have "take (Suc n) (drop index (m_images s)) =
        (m_images s ! index) # take n (drop (Suc index) (m_images s))"
    using f(4) by (simp add: Cons_nth_drop_Suc[symmetric])
  then show ?case using ih f im by (auto split: if_splits)
qed


lemma frame_update [simp]:
  "frame (s\<lparr>m_objNumber := n\<rparr>) = (frame s)\<lparr>m_objNumber := n\<rparr>"
  "frame (s\<lparr>m_pageObjectNumbers := ps\<rparr>) = (frame s)\<lparr>m_pageObjectNumbers := ps\<rparr>"
  "frame (s\<lparr>m_contentsObjNumber := n\<rparr>) = (frame s)\<lparr>m_contentsObjNumber := n\<rparr>"
  "frame (s\<lparr>m_xobjectObjNumber := n\<rparr>) = (frame s)\<lparr>m_xobjectObjNumber := n\<rparr>"
  "frame (s\<lparr>m_contentStream := acc\<rparr>) = (frame s)\<lparr>m_contentStream := acc\<rparr>"
  "frame (s\<lparr>m_images := imgs\<rparr>) = (frame s)\<lparr>m_images := imgs\<rparr>"
  by (simp_all add: frame_def)

lemma recorded_update [simp]:
  "recorded (s\<lparr>m_objNumber := n\<rparr>) = recorded s"
  "recorded (s\<lparr>m_pageObjectNumbers := ps\<rparr>) = recorded s"
  "recorded (s\<lparr>m_contentsObjNumber := n\<rparr>) = recorded s"
  "recorded (s\<lparr>m_xobjectObjNumber := n\<rparr>) = recorded s"
  "recorded (s\<lparr>m_contentStream := acc\<rparr>) = recorded s"
  "recorded (s\<lparr>m_images := imgs\<rparr>) = recorded s"
  by (simp_all add: recorded_def)

lemma is_open_update [simp]:
  "is_open (s\<lparr>m_objNumber := n\<rparr>) = is_open s"
  "is_open (s\<lparr>m_pageObjectNumbers := ps\<rparr>) = is_open s"
  "is_open (s\<lparr>m_contentsObjNumber := n\<rparr>) = is_open s"
  "is_open (s\<lparr>m_xobjectObjNumber := n\<rparr>) = is_open s"
  "is_open (s\<lparr>m_contentStream := acc\<rparr>) = is_open s"
  "is_open (s\<lparr>m_images := imgs\<rparr>) = is_open s"
  by (simp_all add: is_open_def)

lemma DoEndPage_frame:
  assumes "DoEndPage rt s = Inr s'"
  shows "frame s' = (frame s)\<lparr>m_contentStream := \<lparr>m_data = []\<rparr>, m_images := []\<rparr>"
    "recorded s' =
       recorded s @ [m_contentsObjNumber s, m_xobjectObjNumber s] @ map m_objNum (m_images s)"
    "is_open s'" "is_open s"
proof -
  let ?s1 = "DoEndPage_xobjects (DoEndPage_contents rt s)"
  from assms have op: "is_open s"
    by (auto simp add: DoEndPage_def is_open_def split: if_splits)
  from assms obtain s2 where
    l: "DoEndPage_images rt (length (m_images ?s1)) 0 ?s1 = Inr s2" and
    e: "s' = s2\<lparr>m_contentStream := \<lparr>m_data = []\<rparr>, m_images := []\<rparr>"
    by (auto simp add: DoEndPage_def Let_def split: if_splits sum.splits)
  have f1: "frame ?s1 = frame s" by simp
  have im: "m_images ?s1 = m_images s" using f1 by (rule frame_eqD)
  have xo: "m_xobjectObjNumber (DoEndPage_contents rt s) = m_xobjectObjNumber s"
    by (rule frame_eqD) simp
  from DoEndPage_images_frame[OF l] op
  have "frame s2 = frame s"
    "recorded s2 = recorded ?s1 @ map m_objNum (m_images ?s1)" "is_open s2"
    by simp_all
  then show "frame s' = (frame s)\<lparr>m_contentStream := \<lparr>m_data = []\<rparr>, m_images := []\<rparr>"
    "recorded s' =
       recorded s @ [m_contentsObjNumber s, m_xobjectObjNumber s] @ map m_objNum (m_images s)"
    "is_open s'"
    by (simp_all add: e im xo)
  show "is_open s" by (rule op)
qed

lemma DoBeginPage_frame:
  assumes "DoBeginPage rt s = Inr s'"
  shows "frame s' =
           (frame s)\<lparr>m_objNumber := m_objNumber s + 3,
                      m_pageObjectNumbers := m_pageObjectNumbers s @ [m_objNumber s],
                      m_contentsObjNumber := m_objNumber s + 1,
                      m_xobjectObjNumber := m_objNumber s + 2\<rparr>"
    "recorded s' = recorded s @ [m_objNumber s]"
    "is_open s'"
proof -
  from assms have op: "m_file s \<noteq> None"
    by (auto simp add: DoBeginPage_def split: if_splits)
  from assms have e: "s' = projr (DoBeginPage rt s)"
    by simp
  show "frame s' =
           (frame s)\<lparr>m_objNumber := m_objNumber s + 3,
                      m_pageObjectNumbers := m_pageObjectNumbers s @ [m_objNumber s],
                      m_contentsObjNumber := m_objNumber s + 1,
                      m_xobjectObjNumber := m_objNumber s + 2\<rparr>"
    unfolding e by (simp add: DoBeginPage_def Let_def op frame_def[of s])
  show "recorded s' = recorded s @ [m_objNumber s]"
    unfolding e by (simp add: DoBeginPage_def Let_def op)
  show "is_open s'"
    unfolding e using op by (auto simp add: DoBeginPage_def Let_def is_open_def[of s])
qed

lemma DoBeginPage_returns: "is_open s \<Longrightarrow> \<exists>s'. DoBeginPage rt s = Inr s'"
  by (simp add: DoBeginPage_def is_open_def Let_def)

lemma NextPage_frame:
  assumes "NextPage rt s = Inr s'"
  shows "m_lineStyle s' = m_lineStyle s" "m_fillStyle s' = m_fillStyle s"
    "m_textStyle s' = m_textStyle s" "m_contentStream s' = \<lparr>m_data = []\<rparr>"
proof -
  from assms obtain s1 where e: "DoEndPage rt s = Inr s1" and b: "DoBeginPage rt s1 = Inr s'"
    by (auto simp add: NextPage_def split: sum.splits)
  have "frame s' = (frame s)\<lparr>m_contentStream := \<lparr>m_data = []\<rparr>, m_images := [],
          m_objNumber := m_objNumber s1 + 3,
          m_pageObjectNumbers := m_pageObjectNumbers s1 @ [m_objNumber s1],
          m_contentsObjNumber := m_objNumber s1 + 1,
          m_xobjectObjNumber := m_objNumber s1 + 2\<rparr>"
    by (simp add: DoBeginPage_frame(1)[OF b] DoEndPage_frame(1)[OF e])
  then have "m_lineStyle (frame s') = m_lineStyle (frame s)"
    "m_fillStyle (frame s') = m_fillStyle (frame s)"
    "m_textStyle (frame s') = m_textStyle (frame s)"
    "m_contentStream (frame s') = \<lparr>m_data = []\<rparr>"
    by simp_all
  then show "m_lineStyle s' = m_lineStyle s" "m_fillStyle s' = m_fillStyle s"
    "m_textStyle s' = m_textStyle s" "m_contentStream s' = \<lparr>m_data = []\<rparr>"
    by (simp_all add: frame_members)
qed

lemma fmt_lf_okD:
  "fmt_lf_ok rt \<Longrightarrow> length (fmt_lf rt v) \<le> 317"
  "fmt_lf_ok rt \<Longrightarrow> CHR 0x00 \<notin> set (fmt_lf rt v)"
  by (simp_all add: fmt_lf_ok_def)

lemma fprintf_fprintf: "fprintf b (fprintf a s) = fprintf (a @ b) s"
  by (cases "m_file s") (simp_all add: fprintf_def)

lemma zu_0: "zu 0 = ''0''"
  by code_simp

lemma DeflateData_fails:
  "fst (zlib_compress rt (length data + 8192) data) \<noteq> Z_OK \<Longrightarrow> DeflateData rt data = []"
  by (simp add: DeflateData_def Let_def)


lemma NextPage_returns:
  assumes "is_open s" and "m_images s = []"
  shows "\<exists>s'. NextPage rt s = Inr s'"
proof -
  let ?s1 = "DoEndPage_xobjects (DoEndPage_contents rt s)"
  have "m_images ?s1 = m_images s" by (rule frame_eqD) simp
  then have im: "m_images ?s1 = []" using assms(2) by simp
  have op: "is_open ?s1" using assms(1) by simp
  from assms(1) have e: "DoEndPage rt s = Inr (?s1\<lparr>m_contentStream := \<lparr>m_data = []\<rparr>, m_images := []\<rparr>)"
    by (simp add: DoEndPage_def Let_def im is_open_def)
  have "is_open (?s1\<lparr>m_contentStream := \<lparr>m_data = []\<rparr>, m_images := []\<rparr>)"
    using op by simp
  from DoBeginPage_returns[OF this] show ?thesis
    by (simp add: NextPage_def e)
qed

lemma repack_example_image:
  "repack example_image =
     Inr [CHR 0x01, CHR 0x02, CHR 0x03, CHR 0x00, CHR 0x05, CHR 0x06, CHR 0x07, CHR 0x00]"
  by code_simp

lemma fmt_lf_ok_example: "fmt_lf_ok example_runtime"
  by (simp add: fmt_lf_ok_def example_runtime_def)

subsection \<open>The encoder and the decoder\<close>

lemma bit_small_nat: "b < 2 ^ n \<Longrightarrow> n \<le> k \<Longrightarrow> \<not> bit (b::nat) k"
proof -
  assume b: "b < 2 ^ n" and k: "n \<le> k"
  have "(2::nat) ^ n \<le> 2 ^ k" using k by simp
  with b have "b < 2 ^ k" by (rule less_le_trans)
  then have "b div 2 ^ k = 0" by simp
  then show ?thesis by (simp add: bit_iff_odd)
qed

lemma or_eq_add_nat:
  fixes x y :: nat
  assumes "2 ^ n dvd x" and "y < 2 ^ n"
  shows "x OR y = x + y"
proof -
  from assms(1) obtain k where x: "x = push_bit n k"
    by (auto simp add: push_bit_eq_mult dvd_def mult.commute)
  have "x AND y = 0"
    unfolding x by (rule bit_eqI) (auto simp add: bit_simps bit_small_nat[OF assms(2)])
  then show ?thesis by (simp add: disjunctive_add_eq_or)
qed

lemma of_char_lt: "of_char c < (256::nat)"
  by (metis of_char_mod_256 mod_less_divisor zero_less_numeral)

lemma pack2:
  fixes a b :: nat
  assumes "b < 256"
  shows "a * 2^24 OR b * 2^16 = a * 2^24 + b * 2^16"
  by (rule or_eq_add_nat[where n = 24]) (use assms in simp_all)

lemma pack3:
  fixes a b c :: nat
  assumes "c < 256"
  shows "(a * 2^24 + b * 2^16) OR c * 2^8 = a * 2^24 + b * 2^16 + c * 2^8"
  by (rule or_eq_add_nat[where n = 16]) (use assms in simp_all)

lemma pack4:
  fixes a b c d :: nat
  assumes "d < 256"
  shows "(a * 2^24 + b * 2^16 + c * 2^8) OR d = a * 2^24 + b * 2^16 + c * 2^8 + d"
  by (rule or_eq_add_nat[where n = 8]) (use assms in simp_all)

lemma expand_tuple_5:
  "expand_tuple 5 v = [v mod 85, v div 85 mod 85, v div 85 div 85 mod 85,
     v div 85 div 85 div 85 mod 85, v div 85 div 85 div 85 div 85 mod 85]"
proof -
  have "(5::nat) = Suc (Suc (Suc (Suc (Suc 0))))" by simp
  then show ?thesis by (simp only: expand_tuple.simps)
qed


lemma loop_numeral:
  "EncodeTuple_loop (numeral k) index buf e =
     EncodeTuple_loop (pred_numeral k) (index + 1) buf
       (push_char (char_of (buf ! (4 - index) + 33)) e)"
  by (simp add: numeral_eq_Suc)

lemma is_white_lt: "is_white c \<Longrightarrow> (of_char c :: nat) < 33"
  by (auto simp add: is_white_def)

lemma of_char_digit: "d < (85::nat) \<Longrightarrow> (of_char (char_of (d + 33)) :: nat) = d + 33"
  by (simp add: of_char_of)

lemma digit_char:
  assumes "d < (85::nat)"
  shows "\<not> is_white (char_of (d + 33))" "char_of (d + 33) \<noteq> CHR ''~''"
    "char_of (d + 33) \<noteq> CHR ''z''" "is_digit85 (char_of (d + 33))"
proof -
  note e = of_char_digit[OF assms]
  show "\<not> is_white (char_of (d + 33))" using is_white_lt[of "char_of (d + 33)"] e by auto
  show "char_of (d + 33) \<noteq> CHR ''~''" using e assms by (auto dest: arg_cong[where f = "of_char :: char \<Rightarrow> nat"])
  show "char_of (d + 33) \<noteq> CHR ''z''" using e assms by (auto dest: arg_cong[where f = "of_char :: char \<Rightarrow> nat"])
  show "is_digit85 (char_of (d + 33))" using e assms by (simp add: is_digit85_def)
qed

lemma push_char_members [simp]:
  "m_tuple (push_char c e) = m_tuple e" "m_count (push_char c e) = m_count e"
  by (simp_all add: push_char_def Let_def)

lemma white_CRLF: "is_white (CHR 0x0D)" "is_white (CHR 0x0A)"
  by (simp_all add: is_white_def)

lemma stripped_push_char:
  "\<not> is_white c \<Longrightarrow> stripped (m_output (push_char c e)) = stripped (m_output e) @ [c]"
  by (simp add: push_char_def Let_def stripped_def white_CRLF)

lemma group_chars_unfold:
  "group_chars v 5 = [char_of (v div 85 div 85 div 85 div 85 mod 85 + 33),
     char_of (v div 85 div 85 div 85 mod 85 + 33), char_of (v div 85 div 85 mod 85 + 33),
     char_of (v div 85 mod 85 + 33), char_of (v mod 85 + 33)]"
  "group_chars v 4 = [char_of (v div 85 div 85 div 85 div 85 mod 85 + 33),
     char_of (v div 85 div 85 div 85 mod 85 + 33), char_of (v div 85 div 85 mod 85 + 33),
     char_of (v div 85 mod 85 + 33)]"
  "group_chars v 3 = [char_of (v div 85 div 85 div 85 div 85 mod 85 + 33),
     char_of (v div 85 div 85 div 85 mod 85 + 33), char_of (v div 85 div 85 mod 85 + 33)]"
  "group_chars v 2 = [char_of (v div 85 div 85 div 85 div 85 mod 85 + 33),
     char_of (v div 85 div 85 div 85 mod 85 + 33)]"
  by (simp_all add: group_chars_def expand_tuple_5)

lemma EncodeTuple_members [simp]:
  "m_tuple (EncodeTuple_loop n i buf e) = m_tuple e"
  "m_count (EncodeTuple_loop n i buf e) = m_count e"
  by (induction n arbitrary: i e; simp)+

lemma stripped_EncodeTuple:
  "stripped (m_output (EncodeTuple v 4 e)) = stripped (m_output e) @ group_chars v 5"
  "stripped (m_output (EncodeTuple v 3 e)) = stripped (m_output e) @ group_chars v 4"
  "stripped (m_output (EncodeTuple v 2 e)) = stripped (m_output e) @ group_chars v 3"
  "stripped (m_output (EncodeTuple v (Suc 0) e)) = stripped (m_output e) @ group_chars v 2"
  by (simp_all add: EncodeTuple_def expand_tuple_5 loop_numeral group_chars_unfold
        stripped_push_char digit_char)


lemma pack_lt:
  "A < 256 \<Longrightarrow> B < 256 \<Longrightarrow> C < 256 \<Longrightarrow> D < 256 \<Longrightarrow>
   A * 16777216 + B * 65536 + C * 256 + D < (4294967296::nat)"
  by simp

lemma EncodeByte_0:
  "m_count e = 0 \<Longrightarrow> m_tuple e = 0 \<Longrightarrow>
   EncodeByte a e = e\<lparr>m_count := 1, m_tuple := of_char a * 2 ^ 24\<rparr>"
  by (simp add: EncodeByte_def Let_def push_bit_eq_mult)

lemma EncodeByte_1:
  "m_count e = 1 \<Longrightarrow> m_tuple e = A * 2 ^ 24 \<Longrightarrow>
   EncodeByte b e = e\<lparr>m_count := 2, m_tuple := A * 2 ^ 24 + of_char b * 2 ^ 16\<rparr>"
  using pack2[of "of_char b" A]
  by (simp add: EncodeByte_def Let_def push_bit_eq_mult of_char_lt)

lemma EncodeByte_2:
  "m_count e = 2 \<Longrightarrow> m_tuple e = A * 2 ^ 24 + B * 2 ^ 16 \<Longrightarrow>
   EncodeByte c e =
     e\<lparr>m_count := 3, m_tuple := A * 2 ^ 24 + B * 2 ^ 16 + of_char c * 2 ^ 8\<rparr>"
  using pack3[of "of_char c" A B]
  by (simp add: EncodeByte_def Let_def push_bit_eq_mult of_char_lt)

lemma EncodeByte_3:
  assumes "m_count e = 3" and "m_tuple e = A * 2 ^ 24 + B * 2 ^ 16 + C * 2 ^ 8"
    and "A < 256" "B < 256" "C < 256"
  shows "EncodeByte d e =
     (let v = A * 2 ^ 24 + B * 2 ^ 16 + C * 2 ^ 8 + of_char d;
          e1 = e\<lparr>m_count := 4, m_tuple := v\<rparr>
      in (if v = 0 then push_char (CHR ''z'') e1 else EncodeTuple v 4 e1)
           \<lparr>m_tuple := 0, m_count := 0\<rparr>)"
proof -
  have "\<And>D. D < 256 \<Longrightarrow> A * 2 ^ 24 + B * 2 ^ 16 + C * 2 ^ 8 + D < (2::nat) ^ 32"
    using assms(3-5) by simp
  from this[OF of_char_lt]
  have lt: "A * 2 ^ 24 + B * 2 ^ 16 + C * 2 ^ 8 + of_char d < (2::nat) ^ 32" .
  show ?thesis
    using pack4[of "of_char d" A B C] assms(1,2) mod_less[OF lt]
    by (simp add: EncodeByte_def Let_def of_char_lt)
qed

lemma group4:
  assumes "m_count e = 0" and "m_tuple e = 0"
  shows "m_count (EncodeByte d (EncodeByte c (EncodeByte b (EncodeByte a e)))) = 0 \<and>
         m_tuple (EncodeByte d (EncodeByte c (EncodeByte b (EncodeByte a e)))) = 0 \<and>
         stripped (m_output (EncodeByte d (EncodeByte c (EncodeByte b (EncodeByte a e))))) =
           stripped (m_output e) @ encode_groups [a, b, c, d]"
proof -
  let ?e1 = "e\<lparr>m_count := 1, m_tuple := of_char a * 2 ^ 24\<rparr>"
  let ?e2 = "?e1\<lparr>m_count := 2, m_tuple := of_char a * 2 ^ 24 + of_char b * 2 ^ 16\<rparr>"
  let ?e3 = "?e2\<lparr>m_count := 3,
                  m_tuple := of_char a * 2 ^ 24 + of_char b * 2 ^ 16 + of_char c * 2 ^ 8\<rparr>"
  have 1: "EncodeByte a e = ?e1" using assms by (rule EncodeByte_0)
  have 2: "EncodeByte b ?e1 = ?e2" by (rule EncodeByte_1) simp_all
  have 3: "EncodeByte c ?e2 = ?e3" by (rule EncodeByte_2) simp_all
  have 4: "EncodeByte d ?e3 =
     (let v = of_char a * 2 ^ 24 + of_char b * 2 ^ 16 + of_char c * 2 ^ 8 + of_char d;
          e1 = ?e3\<lparr>m_count := 4, m_tuple := v\<rparr>
      in (if v = 0 then push_char (CHR ''z'') e1 else EncodeTuple v 4 e1)
           \<lparr>m_tuple := 0, m_count := 0\<rparr>)"
    by (rule EncodeByte_3) (simp_all add: of_char_lt)
  have z: "\<not> is_white (CHR ''z'')" by (simp add: is_white_def)
  show ?thesis
    unfolding 1 2 3 4
    by (simp add: Let_def stripped_push_char z stripped_EncodeTuple)
qed

lemma encode_fold:
  assumes "m_count e = 0" and "m_tuple e = 0"
  shows "stripped (m_output
           (let e1 = foldl (\<lambda>e c. EncodeByte c e) e data
            in if m_count e1 > 0
               then EncodeTuple (m_tuple e1 mod 2 ^ 32) (m_count e1) e1 else e1)) =
         stripped (m_output e) @ encode_groups data"
  using assms
proof (induction data arbitrary: e rule: encode_groups.induct)
  case (1 a b c d rest)
  let ?e4 = "EncodeByte d (EncodeByte c (EncodeByte b (EncodeByte a e)))"
  note g = group4[OF "1.prems", of d c b a]
  from g have c4: "m_count ?e4 = 0" and t4: "m_tuple ?e4 = 0" by simp_all
  from "1.IH"[OF c4 t4] g show ?case by simp
next
  case 2
  then show ?case by simp
next
  case (3 a)
  have lt: "of_char a * 16777216 < (4294967296::nat)" using of_char_lt[of a] by simp
  show ?case using 3
    by (simp add: EncodeByte_0 stripped_EncodeTuple mod_less[OF lt])
next
  case (4 a b)
  have lt: "of_char a * 16777216 + of_char b * 65536 < (4294967296::nat)"
    using pack_lt[OF of_char_lt[of a] of_char_lt[of b], of 0 0] by simp
  show ?case using 4
    by (simp add: EncodeByte_0 EncodeByte_1[where A = "of_char a"] stripped_EncodeTuple mod_less[OF lt])
next
  case (5 a b c)
  have lt: "of_char a * 16777216 + of_char b * 65536 + of_char c * 256 < (4294967296::nat)"
    using pack_lt[OF of_char_lt[of a] of_char_lt[of b] of_char_lt[of c], of 0] by simp
  show ?case using 5
    by (simp add: EncodeByte_0 EncodeByte_1[where A = "of_char a"]
          EncodeByte_2[where A = "of_char a" and B = "of_char b"] stripped_EncodeTuple mod_less[OF lt])
qed

lemma stripped_EncodeToAscii85:
  "data \<noteq> [] \<Longrightarrow> stripped (EncodeToAscii85 data) = encode_groups data @ ''~>''"
proof -
  assume "data \<noteq> []"
  then have l: "\<not> length data < 1" by (cases data) simp_all
  let ?e0 = "\<lparr>m_output = [], m_column = 0, m_tuple = 0, m_count = 0\<rparr>"
  have "stripped (m_output
           (let e1 = foldl (\<lambda>e c. EncodeByte c e) ?e0 data
            in if m_count e1 > 0
               then EncodeTuple (m_tuple e1 mod 2 ^ 32) (m_count e1) e1 else e1)) =
         stripped (m_output ?e0) @ encode_groups data"
    by (rule encode_fold) simp_all
  then show ?thesis
    using l by (simp add: EncodeToAscii85_def Let_def stripped_def is_white_def)
qed


lemma decode_stripped: "decode_loop cs ds = decode_loop (stripped cs) ds"
  by (induction cs arbitrary: ds) (simp_all add: stripped_def Let_def)

lemma decode_digit:
  assumes "d < (85::nat)"
  shows "decode_loop (char_of (d + 33) # cs) ds =
     (if length ds = 4
      then (let v = group_value (ds @ [d])
            in if v < 2 ^ 32
               then map_option (\<lambda>out. group_bytes v @ out) (decode_loop cs [])
               else None)
      else decode_loop cs (ds @ [d]))"
  using digit_char[OF assms] of_char_digit[OF assms]
  by (simp del: of_char_of)

lemma decode_end:
  "decode_loop (CHR ''~'' # cs) ds = decode_rest ds"
  by (simp add: is_white_def)

lemma decode_z:
  "decode_loop (CHR ''z'' # cs) [] =
     map_option (\<lambda>out. replicate 4 (CHR 0x00) @ out) (decode_loop cs [])"
  by (simp add: is_white_def)

lemma horner5:
  fixes v :: nat
  assumes "v < 2 ^ 32"
  shows "group_value [v div 85 div 85 div 85 div 85 mod 85, v div 85 div 85 div 85 mod 85,
           v div 85 div 85 mod 85, v div 85 mod 85, v mod 85] = v"
proof -
  define q1 where "q1 = v div 85"
  define q2 where "q2 = q1 div 85"
  define q3 where "q3 = q2 div 85"
  define q4 where "q4 = q3 div 85"
  have "q1 < 50529028" unfolding q1_def using assms by (intro less_mult_imp_div_less) simp
  then have "q2 < 594460" unfolding q2_def by (intro less_mult_imp_div_less) simp
  then have "q3 < 6994" unfolding q3_def by (intro less_mult_imp_div_less) simp
  then have "q4 < 83" unfolding q4_def by (intro less_mult_imp_div_less) simp
  then have 4: "q4 mod 85 = q4" by simp
  have 3: "q4 * 85 + q3 mod 85 = q3" unfolding q4_def by simp
  have 2: "q3 * 85 + q2 mod 85 = q2" unfolding q3_def by simp
  have 1: "q2 * 85 + q1 mod 85 = q1" unfolding q2_def by simp
  have 0: "q1 * 85 + v mod 85 = v" unfolding q1_def by simp
  have "group_value [q4 mod 85, q3 mod 85, q2 mod 85, q1 mod 85, v mod 85] = v"
    by (simp only: group_value_def foldl.simps 4 3 2 1 0 mult_0 add_0)
  then show ?thesis
    by (simp only: q1_def q2_def q3_def q4_def)
qed

lemma pad_div:
  fixes v N M W :: nat
  assumes "0 < N" and "N \<le> M" and "v = W * M"
  shows "(v div N * N + (N - 1)) div M = W" and "v div N * N + (N - 1) < W * M + M"
proof -
  have a: "v div N * N \<le> v" by simp
  have b: "v < N + v div N * N" using assms(1) by (rule dividend_less_div_times)
  from a b assms show 2: "v div N * N + (N - 1) < W * M + M" by linarith
  from b assms have 1: "W * M \<le> v div N * N + (N - 1)" by linarith
  from 1 2 show "(v div N * N + (N - 1)) div M = W"
    by (intro div_nat_eqI) (simp_all add: mult.commute)
qed

lemma char_of_low: "char_of (x * 256 + (of_char b :: nat)) = b"
proof -
  have "(x * 256 + (of_char b :: nat)) mod 256 = of_char b"
    using of_char_lt[of b] by simp
  then have "char_of ((x * 256 + (of_char b :: nat)) mod 256) = b" by simp
  then show ?thesis by (simp only: char_of_mod_256)
qed


lemma char_of_0: "char_of (0::nat) = CHR 0x00"
  by code_simp

lemma of_char_eq_0: "(of_char c :: nat) = 0 \<longleftrightarrow> c = CHR 0x00"
proof
  assume "(of_char c :: nat) = 0"
  then have "char_of (of_char c :: nat) = char_of (0::nat)" by simp
  then show "c = CHR 0x00" by (simp add: char_of_0)
next
  assume "c = CHR 0x00"
  then show "(of_char c :: nat) = 0" by simp
qed

lemma pack_div:
  fixes A B C D :: nat
  assumes "B < 256" "C < 256" "D < 256"
  shows "(A * 16777216 + B * 65536 + C * 256 + D) div 16777216 = A"
    "(A * 16777216 + B * 65536 + C * 256 + D) div 65536 = A * 256 + B"
    "(A * 16777216 + B * 65536 + C * 256 + D) div 256 = A * 65536 + B * 256 + C"
  using assms by (auto intro!: div_nat_eqI)

lemma group_bytes_pack:
  "group_bytes (of_char a * 16777216 + of_char b * 65536 + of_char c * 256 + of_char d) =
     [a, b, c, d]"
proof -
  let ?v = "of_char a * 16777216 + of_char b * 65536 + of_char c * 256 + (of_char d :: nat)"
  note d = pack_div[OF of_char_lt[of b] of_char_lt[of c] of_char_lt[of d], of "of_char a"]
  have 1: "char_of (?v div 16777216) = a" by (simp only: d; simp)
  have 2: "char_of (?v div 65536) = b" by (simp only: d char_of_low)
  have "of_char a * 65536 + of_char b * 256 + (of_char c :: nat) =
        (of_char a * 256 + of_char b) * 256 + of_char c" by simp
  then have 3: "char_of (?v div 256) = c" by (simp only: d char_of_low)
  have "?v = (of_char a * 65536 + of_char b * 256 + of_char c) * 256 + of_char d" by simp
  then have 4: "char_of ?v = d" by (simp only: char_of_low)
  show ?thesis
    unfolding group_bytes_def using 1 2 3 4 by simp
qed

lemma decode_5digits:
  assumes "d4 < (85::nat)" "d3 < (85::nat)" "d2 < (85::nat)" "d1 < (85::nat)" "d0 < (85::nat)"
    and "group_value [d4, d3, d2, d1, d0] < 2 ^ 32"
  shows "decode_loop (char_of (d4 + 33) # char_of (d3 + 33) # char_of (d2 + 33) #
                      char_of (d1 + 33) # char_of (d0 + 33) # rest) [] =
           map_option (\<lambda>out. group_bytes (group_value [d4, d3, d2, d1, d0]) @ out)
             (decode_loop rest [])"
  using assms(6)
  by (simp only: decode_digit[OF assms(1)] decode_digit[OF assms(2)] decode_digit[OF assms(3)]
        decode_digit[OF assms(4)] decode_digit[OF assms(5)] list.size append.simps Let_def)
     simp

lemma decode_digits_end:
  assumes "\<forall>d\<in>set ds. d < (85::nat)" and "length acc + length ds \<le> 4"
  shows "decode_loop (map (\<lambda>d. char_of (d + 33)) ds @ CHR ''~'' # cs) acc =
           decode_rest (acc @ ds)"
  using assms
proof (induction ds arbitrary: acc)
  case Nil
  then show ?case by (simp add: is_white_def)
next
  case (Cons d ds)
  from Cons.prems have d: "d < 85" and l: "length acc \<noteq> 4" by simp_all
  have "decode_loop (map (\<lambda>d. char_of (d + 33)) (d # ds) @ CHR ''~'' # cs) acc =
        decode_loop (map (\<lambda>d. char_of (d + 33)) ds @ CHR ''~'' # cs) (acc @ [d])"
    using l by (simp only: list.simps(9) append_Cons decode_digit[OF d] if_False)
  also from Cons.prems have "\<dots> = decode_rest ((acc @ [d]) @ ds)"
    by (intro Cons.IH) simp_all
  finally show ?case
    by (simp del: decode_loop.simps)
qed

lemma decode_group5:
  assumes "v < 2 ^ 32"
  shows "decode_loop (group_chars v 5 @ rest) [] =
           map_option (\<lambda>out. group_bytes v @ out) (decode_loop rest [])"
proof -
  have "decode_loop (group_chars v 5 @ rest) [] =
      map_option (\<lambda>out. group_bytes (group_value [v div 85 div 85 div 85 div 85 mod 85,
          v div 85 div 85 div 85 mod 85, v div 85 div 85 mod 85, v div 85 mod 85, v mod 85]) @ out)
        (decode_loop rest [])"
    unfolding group_chars_unfold append.simps
  proof (rule decode_5digits)
    show "group_value [v div 85 div 85 div 85 div 85 mod 85,
          v div 85 div 85 div 85 mod 85, v div 85 div 85 mod 85, v div 85 mod 85, v mod 85]
          < 2 ^ 32"
      by (simp only: horner5[OF assms] assms)
  qed simp_all
  then show ?thesis
    by (simp only: horner5[OF assms])
qed

lemma decode_full:
  "decode_loop (encode_groups [a, b, c, d] @ rest) [] =
     map_option (\<lambda>out. [a, b, c, d] @ out) (decode_loop rest [])"
proof (cases "of_char a * 16777216 + of_char b * 65536 + of_char c * 256 + of_char d = (0::nat)")
  case True
  then have "a = CHR 0x00" "b = CHR 0x00" "c = CHR 0x00" "d = CHR 0x00"
    by (simp_all add: of_char_eq_0)
  moreover have "replicate 4 (CHR 0x00) = [CHR 0x00, CHR 0x00, CHR 0x00, CHR 0x00]"
    by (simp add: numeral_eq_Suc)
  ultimately show ?thesis
    by (cases "decode_loop rest []") (simp_all add: is_white_def)
next
  case False
  let ?v = "of_char a * 16777216 + of_char b * 65536 + of_char c * 256 + (of_char d :: nat)"
  have lt: "?v < 2 ^ 32"
    using pack_lt[OF of_char_lt[of a] of_char_lt[of b] of_char_lt[of c] of_char_lt[of d]] by simp
  have e: "encode_groups [a, b, c, d] = group_chars ?v 5"
    using False by auto
  show ?thesis
    unfolding e by (simp only: decode_group5[OF lt] group_bytes_pack)
qed


lemma group_value_snoc: "group_value (ds @ [d]) = group_value ds * 85 + d"
  by (simp add: group_value_def)

lemma group_value_2:
  fixes q :: nat
  assumes "q div 85 < 85"
  shows "group_value [q div 85 mod 85, q mod 85] = q"
  using assms by (simp add: group_value_def)

lemma group_value_3:
  fixes q :: nat
  assumes "q div 85 div 85 < 85"
  shows "group_value [q div 85 div 85 mod 85, q div 85 mod 85, q mod 85] = q"
proof -
  have "group_value ([q div 85 div 85 mod 85, q div 85 mod 85] @ [q mod 85]) = q"
    unfolding group_value_snoc group_value_2[OF assms] by simp
  then show ?thesis by simp
qed

lemma group_value_4:
  fixes q :: nat
  assumes "q div 85 div 85 div 85 < 85"
  shows "group_value [q div 85 div 85 div 85 mod 85, q div 85 div 85 mod 85, q div 85 mod 85,
           q mod 85] = q"
proof -
  have "group_value ([q div 85 div 85 div 85 mod 85, q div 85 div 85 mod 85, q div 85 mod 85] @
          [q mod 85]) = q"
    unfolding group_value_snoc group_value_3[OF assms] by simp
  then show ?thesis by simp
qed

lemma top_digit_small:
  fixes v :: nat
  assumes "v < 2 ^ 32"
  shows "v div 85 div 85 div 85 div 85 < 85"
proof -
  have "v div 85 < 50529028" using assms by (intro less_mult_imp_div_less) simp
  then have "v div 85 div 85 < 594460" by (intro less_mult_imp_div_less) simp
  then have "v div 85 div 85 div 85 < 6994" by (intro less_mult_imp_div_less) simp
  then have "v div 85 div 85 div 85 div 85 < 83" by (intro less_mult_imp_div_less) simp
  then show ?thesis by simp
qed

lemma nested_div:
  fixes v :: nat
  shows "v div 85 div 85 = v div 7225" "v div 85 div 85 div 85 = v div 614125"
  by (simp_all add: div_mult2_eq[symmetric])

lemma decode_rest_value:
  assumes "length ds = n" and "2 \<le> n" and "n \<le> 5"
    and "group_value (ds @ replicate (5 - n) 84) = w" and "w < 2 ^ 32"
  shows "decode_rest ds = Some (take (n - 1) (group_bytes w))"
  using assms by (auto simp add: decode_rest_def Let_def)

lemma decode_rest_2:
  fixes v A :: nat
  assumes "A < 256" and "v = A * 16777216"
  shows "decode_rest [v div 85 div 85 div 85 div 85 mod 85, v div 85 div 85 div 85 mod 85] =
           Some [char_of A]"
proof -
  have lt: "v < 2 ^ 32" using assms by simp
  let ?ds = "[v div 85 div 85 div 85 div 85 mod 85, v div 85 div 85 div 85 mod 85]"
  let ?w = "v div 614125 * 614125 + (614125 - 1)"
  have g: "group_value ?ds = v div 614125"
    using group_value_2[of "v div 85 div 85 div 85"] top_digit_small[OF lt]
    by (simp only: nested_div)
  have "group_value (((?ds @ [84]) @ [84]) @ [84]) = ?w"
    unfolding group_value_snoc g by simp
  moreover have "replicate (5 - 2) (84::nat) = [84, 84, 84]"
    by (simp add: numeral_3_eq_3)
  ultimately have w: "group_value (?ds @ replicate (5 - 2) 84) = ?w"
    by (simp only: append.simps append_assoc)
  have d: "?w div 16777216 = A" and b: "?w < A * 16777216 + 16777216"
    using pad_div[of 614125 16777216 v A] assms(2) by simp_all
  from b assms(1) have "?w < 2 ^ 32" by simp
  then have "decode_rest ?ds = Some (take (2 - 1) (group_bytes ?w))"
    by (intro decode_rest_value w) simp_all
  then show ?thesis
    using d by (simp add: group_bytes_def)
qed


lemma decode_rest_3:
  fixes v A B :: nat
  assumes "A < 256" and "B < 256" and "v = A * 16777216 + B * 65536"
  shows "decode_rest [v div 85 div 85 div 85 div 85 mod 85, v div 85 div 85 div 85 mod 85,
           v div 85 div 85 mod 85] = Some [char_of A, char_of (A * 256 + B)]"
proof -
  have lt: "v < 2 ^ 32" using assms by simp
  let ?ds = "[v div 85 div 85 div 85 div 85 mod 85, v div 85 div 85 div 85 mod 85,
              v div 85 div 85 mod 85]"
  let ?w = "v div 7225 * 7225 + (7225 - 1)"
  have g: "group_value ?ds = v div 7225"
    using group_value_3[of "v div 85 div 85"] top_digit_small[OF lt]
    by (simp only: nested_div)
  have "group_value ((?ds @ [84]) @ [84]) = ?w"
    unfolding group_value_snoc g by simp
  moreover have "replicate (5 - 3) (84::nat) = [84, 84]"
    by (simp add: numeral_2_eq_2)
  ultimately have w: "group_value (?ds @ replicate (5 - 3) 84) = ?w"
    by (simp only: append.simps append_assoc)
  have v: "v = (A * 256 + B) * 65536" using assms(3) by simp
  have d: "?w div 65536 = A * 256 + B" and b: "?w < (A * 256 + B) * 65536 + 65536"
    using pad_div[of 7225 65536 v "A * 256 + B"] v by simp_all
  have "?w div 16777216 = ?w div 65536 div 256"
    by (simp add: div_mult2_eq[symmetric])
  then have d2: "?w div 16777216 = A" using assms(2) by (simp only: d; simp)
  from b assms(1,2) have "?w < 2 ^ 32" by simp
  then have "decode_rest ?ds = Some (take (3 - 1) (group_bytes ?w))"
    by (intro decode_rest_value w) simp_all
  then show ?thesis
    using d d2 by (simp add: group_bytes_def)
qed

lemma decode_rest_4:
  fixes v A B C :: nat
  assumes "A < 256" and "B < 256" and "C < 256" and "v = A * 16777216 + B * 65536 + C * 256"
  shows "decode_rest [v div 85 div 85 div 85 div 85 mod 85, v div 85 div 85 div 85 mod 85,
           v div 85 div 85 mod 85, v div 85 mod 85] =
         Some [char_of A, char_of (A * 256 + B), char_of ((A * 256 + B) * 256 + C)]"
proof -
  have lt: "v < 2 ^ 32" using assms by simp
  let ?ds = "[v div 85 div 85 div 85 div 85 mod 85, v div 85 div 85 div 85 mod 85,
              v div 85 div 85 mod 85, v div 85 mod 85]"
  let ?w = "v div 85 * 85 + 84"
  have g: "group_value ?ds = v div 85"
    using group_value_4[of "v div 85"] top_digit_small[OF lt] by simp
  have "group_value (?ds @ [84]) = ?w"
    unfolding group_value_snoc g by simp
  moreover have "replicate (5 - 4) (84::nat) = [84]"
    by simp
  ultimately have w: "group_value (?ds @ replicate (5 - 4) 84) = ?w"
    by (simp only: append.simps append_assoc)
  have v: "v = ((A * 256 + B) * 256 + C) * 256" using assms(4) by simp
  have d: "?w div 256 = (A * 256 + B) * 256 + C" and b: "?w < ((A * 256 + B) * 256 + C) * 256 + 256"
    using pad_div[of 85 256 v "(A * 256 + B) * 256 + C"] v by simp_all
  have "?w div 65536 = ?w div 256 div 256"
    by (simp add: div_mult2_eq[symmetric])
  then have d2: "?w div 65536 = A * 256 + B" using assms(3) by (simp only: d; simp)
  have "?w div 16777216 = ?w div 65536 div 256"
    by (simp add: div_mult2_eq[symmetric])
  then have d3: "?w div 16777216 = A" using assms(2) by (simp only: d2; simp)
  from b assms(1,2,3) have "?w < 2 ^ 32" by simp
  then have "decode_rest ?ds = Some (take (4 - 1) (group_bytes ?w))"
    by (intro decode_rest_value w) simp_all
  then show ?thesis
    using d d2 d3 by (simp add: group_bytes_def numeral_3_eq_3)
qed

lemma digits_lt:
  fixes v :: nat
  shows "\<forall>d\<in>set [v div 85 div 85 div 85 div 85 mod 85, v div 85 div 85 div 85 mod 85,
           v div 85 div 85 mod 85, v div 85 mod 85]. d < 85"
  by simp

lemma decode_partial:
  "decode_loop (encode_groups [a] @ CHR ''~'' # cs) [] = Some [a]"
  "decode_loop (encode_groups [a, b] @ CHR ''~'' # cs) [] = Some [a, b]"
  "decode_loop (encode_groups [a, b, c] @ CHR ''~'' # cs) [] = Some [a, b, c]"
proof -
  let ?dc = "\<lambda>d::nat. char_of (d + 33)"
  let ?v1 = "of_char a * 16777216 :: nat"
  let ?v2 = "of_char a * 16777216 + of_char b * 65536 :: nat"
  let ?v3 = "of_char a * 16777216 + of_char b * 65536 + of_char c * 256 :: nat"
  have e1: "encode_groups [a] =
      map ?dc [?v1 div 85 div 85 div 85 div 85 mod 85, ?v1 div 85 div 85 div 85 mod 85]"
    by (simp add: group_chars_unfold)
  have e2: "encode_groups [a, b] =
      map ?dc [?v2 div 85 div 85 div 85 div 85 mod 85, ?v2 div 85 div 85 div 85 mod 85,
               ?v2 div 85 div 85 mod 85]"
    by (simp add: group_chars_unfold)
  have e3: "encode_groups [a, b, c] =
      map ?dc [?v3 div 85 div 85 div 85 div 85 mod 85, ?v3 div 85 div 85 div 85 mod 85,
               ?v3 div 85 div 85 mod 85, ?v3 div 85 mod 85]"
    by (simp add: group_chars_unfold)
  have c1: "char_of (of_char a :: nat) = a" by simp
  have "decode_loop (encode_groups [a] @ CHR ''~'' # cs) [] =
        decode_rest ([] @ [?v1 div 85 div 85 div 85 div 85 mod 85, ?v1 div 85 div 85 div 85 mod 85])"
    unfolding e1 by (rule decode_digits_end) simp_all
  also have "\<dots> = Some [char_of (of_char a :: nat)]"
    using decode_rest_2[OF of_char_lt[of a] refl] by (simp only: append_Nil)
  finally show "decode_loop (encode_groups [a] @ CHR ''~'' # cs) [] = Some [a]"
    by (simp only: c1)
  have "decode_loop (encode_groups [a, b] @ CHR ''~'' # cs) [] =
        decode_rest ([] @ [?v2 div 85 div 85 div 85 div 85 mod 85, ?v2 div 85 div 85 div 85 mod 85,
               ?v2 div 85 div 85 mod 85])"
    unfolding e2 by (rule decode_digits_end) simp_all
  also have "\<dots> = Some [char_of (of_char a :: nat), char_of (of_char a * 256 + of_char b :: nat)]"
    using decode_rest_3[OF of_char_lt[of a] of_char_lt[of b] refl] by (simp only: append_Nil)
  finally show "decode_loop (encode_groups [a, b] @ CHR ''~'' # cs) [] = Some [a, b]"
    by (simp only: c1 char_of_low)
  have "decode_loop (encode_groups [a, b, c] @ CHR ''~'' # cs) [] =
        decode_rest ([] @ [?v3 div 85 div 85 div 85 div 85 mod 85, ?v3 div 85 div 85 div 85 mod 85,
               ?v3 div 85 div 85 mod 85, ?v3 div 85 mod 85])"
    unfolding e3 by (rule decode_digits_end) simp_all
  also have "\<dots> = Some [char_of (of_char a :: nat), char_of (of_char a * 256 + of_char b :: nat),
       char_of ((of_char a * 256 + of_char b) * 256 + of_char c :: nat)]"
    using decode_rest_4[OF of_char_lt[of a] of_char_lt[of b] of_char_lt[of c] refl]
    by (simp only: append_Nil)
  finally show "decode_loop (encode_groups [a, b, c] @ CHR ''~'' # cs) [] = Some [a, b, c]"
    by (simp only: c1 char_of_low)
qed


lemma encode_groups_Cons4:
  "encode_groups (a # b # c # d # rest) = encode_groups [a, b, c, d] @ encode_groups rest"
  by simp

lemma decode_encode_groups:
  "decode_loop (encode_groups data @ CHR ''~'' # cs) [] = Some data"
proof (induction data rule: encode_groups.induct)
  case (1 a b c d rest)
  have "decode_loop (encode_groups (a # b # c # d # rest) @ CHR ''~'' # cs) [] =
        decode_loop (encode_groups [a, b, c, d] @ (encode_groups rest @ CHR ''~'' # cs)) []"
    by (subst encode_groups_Cons4) (simp only: append_assoc)
  also have "\<dots> = map_option (\<lambda>out. [a, b, c, d] @ out)
                      (decode_loop (encode_groups rest @ CHR ''~'' # cs) [])"
    by (rule decode_full)
  also have "\<dots> = Some (a # b # c # d # rest)"
    by (simp only: "1.IH") simp
  finally show ?case .
next
  case 2
  show ?case by (simp add: is_white_def decode_rest_def)
next
  case (3 a)
  show ?case by (rule decode_partial)
next
  case (4 a b)
  show ?case by (rule decode_partial)
next
  case (5 a b c)
  show ?case by (rule decode_partial)
qed

lemma round_trip: "DecodeAscii85 (EncodeToAscii85 data) = Some data"
proof (cases "data = []")
  case True
  then show ?thesis
    by (simp add: DecodeAscii85_def EncodeToAscii85_def decode_rest_def)
next
  case False
  have "decode_loop (EncodeToAscii85 data) [] = decode_loop (stripped (EncodeToAscii85 data)) []"
    by (rule decode_stripped)
  also have "\<dots> = decode_loop (encode_groups data @ CHR ''~'' # ''>'') []"
    by (simp only: stripped_EncodeToAscii85[OF False])
  also have "\<dots> = Some data"
    by (rule decode_encode_groups)
  finally show ?thesis
    by (simp only: DecodeAscii85_def)
qed

lemma z_in_group_chars:
  "filter (\<lambda>c. c = CHR ''z'') (group_chars v 5) = []"
  "filter (\<lambda>c. c = CHR ''z'') (group_chars v 4) = []"
  "filter (\<lambda>c. c = CHR ''z'') (group_chars v 3) = []"
  "filter (\<lambda>c. c = CHR ''z'') (group_chars v 2) = []"
  by (simp_all add: group_chars_unfold digit_char(3))

lemma z_in_encode_groups:
  "length (filter (\<lambda>c. c = CHR ''z'') (encode_groups data)) = zero_groups data"
proof (induction data rule: encode_groups.induct)
  case (1 a b c d rest)
  have "of_char a * 2 ^ 24 + of_char b * 2 ^ 16 + of_char c * 2 ^ 8 + of_char d = (0::nat) \<longleftrightarrow>
        a = CHR 0x00 \<and> b = CHR 0x00 \<and> c = CHR 0x00 \<and> d = CHR 0x00"
    by (simp add: of_char_eq_0)
  then show ?case
    using "1.IH" by (simp add: z_in_group_chars)
qed (simp_all add: z_in_group_chars)

lemma z_count:
  "length (filter (\<lambda>c. c = CHR ''z'') (EncodeToAscii85 data)) = zero_groups data"
proof (cases "data = []")
  case True
  then show ?thesis by (simp add: EncodeToAscii85_def)
next
  case False
  have "filter (\<lambda>c. c = CHR ''z'') (EncodeToAscii85 data) =
        filter (\<lambda>c. c = CHR ''z'') (stripped (EncodeToAscii85 data))"
    unfolding stripped_def filter_filter
    by (rule filter_cong) (auto simp add: is_white_def)
  then show ?thesis
    by (simp add: stripped_EncodeToAscii85[OF False] z_in_encode_groups)
qed


lemma push_many:
  "m_column e + n \<le> 72 \<Longrightarrow>
   (push_char c ^^ n) e =
     e\<lparr>m_output := m_output e @ replicate n c, m_column := m_column e + n\<rparr>"
proof (induction n)
  case 0
  show ?case by simp
next
  case (Suc n)
  then show ?case
    by (simp add: push_char_def Let_def lineWidth_def replicate_append_same)
qed

lemma zero_group:
  assumes "m_count e = 0" and "m_tuple e = 0"
  shows "EncodeByte (CHR 0x00) (EncodeByte (CHR 0x00) (EncodeByte (CHR 0x00)
           (EncodeByte (CHR 0x00) e))) = push_char (CHR ''z'') e"
  using assms by (simp add: EncodeByte_def Let_def push_char_def)

lemma zero_groups_fold:
  assumes "m_count e = 0" and "m_tuple e = 0"
  shows "foldl (\<lambda>e c. EncodeByte c e) e (replicate (4 * n) (CHR 0x00)) =
           (push_char (CHR ''z'') ^^ n) e"
  using assms
proof (induction n arbitrary: e)
  case 0
  show ?case by simp
next
  case (Suc n)
  have r: "replicate (4 * Suc n) (CHR 0x00) =
           CHR 0x00 # CHR 0x00 # CHR 0x00 # CHR 0x00 # replicate (4 * n) (CHR 0x00)"
    by (simp add: numeral_eq_Suc)
  have "m_count (push_char (CHR ''z'') e) = 0" "m_tuple (push_char (CHR ''z'') e) = 0"
    using Suc.prems by simp_all
  from Suc.IH[OF this] show ?case
    unfolding r by (simp add: zero_group[OF Suc.prems] funpow_swap1)
qed

lemma line_of_73:
  "EncodeToAscii85 (replicate 292 (CHR 0x00)) =
     replicate 73 (CHR ''z'') @ [CHR 0x0D, CHR 0x0A] @ ''~>'' @ [CHR 0x0D, CHR 0x0A]"
proof -
  let ?e0 = "\<lparr>m_output = [], m_column = 0, m_tuple = 0, m_count = 0\<rparr>"
  have n: "(292::nat) = 4 * 73" by simp
  have f: "foldl (\<lambda>e c. EncodeByte c e) ?e0 (replicate 292 (CHR 0x00)) =
        (push_char (CHR ''z'') ^^ 73) ?e0"
    unfolding n by (rule zero_groups_fold) simp_all
  have "(push_char (CHR ''z'') ^^ 72) ?e0 =
        ?e0\<lparr>m_output := m_output ?e0 @ replicate 72 (CHR ''z''), m_column := m_column ?e0 + 72\<rparr>"
    by (rule push_many) simp
  moreover have "(push_char (CHR ''z'') ^^ 73) ?e0 =
        push_char (CHR ''z'') ((push_char (CHR ''z'') ^^ 72) ?e0)"
    by (simp add: numeral_eq_Suc)
  ultimately have p: "(push_char (CHR ''z'') ^^ 73) ?e0 =
      \<lparr>m_output = replicate 72 (CHR ''z'') @ [CHR ''z'', CHR 0x0D, CHR 0x0A],
       m_column = 0, m_tuple = 0, m_count = 0\<rparr>"
    by (simp add: push_char_def Let_def lineWidth_def)
  have s73: "(73::nat) = Suc 72" by simp
  have "replicate 73 (CHR ''z'') = replicate 72 (CHR ''z'') @ [CHR ''z'']"
    unfolding s73 by (simp only: replicate_Suc replicate_append_same)
  then show ?thesis
    by (simp add: EncodeToAscii85_def Let_def f p lineWidth_def)
qed

subsection \<open>Object numbers\<close>

lemma page_inv_numbers: "numbers s' = numbers s \<Longrightarrow> page_inv s' = page_inv s"
  by (simp add: numbers_def page_inv_def)

lemma numbers_content_Printf [simp]: "numbers (content_Printf t s) = numbers s"
  by (simp add: numbers_def content_Printf_def is_open_def recorded_def pending_def)

lemma numbers_update [simp]:
  "numbers (s\<lparr>m_lineStyle := ls\<rparr>) = numbers s"
  "numbers (s\<lparr>m_fillStyle := fs\<rparr>) = numbers s"
  "numbers (s\<lparr>m_textStyle := ts\<rparr>) = numbers s"
  "numbers (s\<lparr>m_contentStream := acc\<rparr>) = numbers s"
  "numbers (s\<lparr>m_compressImages := b\<rparr>) = numbers s"
  "numbers (s\<lparr>m_compressContent := b\<rparr>) = numbers s"
  by (simp_all add: numbers_def is_open_def recorded_def pending_def)

lemma numbers_setters [simp]:
  "numbers (SetLineStyle rt ls s) = numbers s"
  "numbers (SetFillStyle rt fs s) = numbers s"
  "numbers (SetTextStyle ts s) = numbers s"
  by (simp_all add: SetLineStyle_def SetFillStyle_def SetTextStyle_def Let_def)

lemma numbers_draw [simp]:
  "numbers (DrawPolyline rt points s) = numbers s"
  "numbers (DrawLine rt pt1 pt2 s) = numbers s"
  "numbers (DrawPolygon rt points s) = numbers s"
  "numbers (DrawRectangle rt box s) = numbers s"
  "numbers (DrawTextString rt point txt s) = numbers s"
  by (simp_all add: DrawPolyline_def DrawLine_def DrawPolygon_def DrawRectangle_def
        DrawTextString_def path_loop_eq Let_def)

lemma numbers_DrawImage:
  "numbers (DrawImage rt img dx dy dw dh s) =
     (is_open s, recorded s, pending s @ [m_objNumber s], m_objNumber s + 1)"
  by (simp add: DrawImage_def Let_def)
     (simp add: numbers_def is_open_def recorded_def pending_def)

lemma page_inv_DrawImage:
  assumes "page_inv s"
  shows "page_inv (DrawImage rt img dx dy dw dh s)"
proof -
  have n: "numbers (DrawImage rt img dx dy dw dh s) =
     (is_open s, recorded s, pending s @ [m_objNumber s], m_objNumber s + 1)"
    by (rule numbers_DrawImage)
  from assms have "m_pagesObjNumber s \<in> {1..<m_objNumber s}"
    by (auto simp add: page_inv_def pending_def)
  then have "1 \<le> m_objNumber s" by simp
  with assms n show ?thesis
    by (auto simp add: page_inv_def numbers_def)
qed


lemma frame_eq_members:
  assumes "frame s' = t"
  shows "m_objNumber s' = m_objNumber t" "m_pagesObjNumber s' = m_pagesObjNumber t"
    "m_contentsObjNumber s' = m_contentsObjNumber t"
    "m_xobjectObjNumber s' = m_xobjectObjNumber t" "m_images s' = m_images t"
  using assms frame_members by metis+

lemma DoEndPage_ended:
  assumes "page_inv s" and "DoEndPage rt s = Inr s'"
  shows "ended_inv s'"
proof -
  note f = DoEndPage_frame[OF assms(2)]
  note m = frame_eq_members[OF f(1)]
  have "m_objNumber s' = m_objNumber s" "m_pagesObjNumber s' = m_pagesObjNumber s"
    "m_images s' = []"
    by (simp_all add: m frame_members)
  with assms(1) f(2,3) show ?thesis
    by (auto simp add: ended_inv_def page_inv_def pending_def)
qed

lemma extend_range:
  fixes R :: "nat list" and P N :: nat
  assumes "distinct (R @ [P])" and "set (R @ [P]) = {1..<N}"
  shows "distinct (R @ [N] @ [P, N + 1, N + 2])"
    and "set (R @ [N] @ [P, N + 1, N + 2]) = {1..<N + 3}"
proof -
  from assms(2) have mem: "\<And>x. x \<in> set (R @ [P]) \<longleftrightarrow> 1 \<le> x \<and> x < N"
    by auto
  have P: "1 \<le> P" "P < N" using mem[of P] by simp_all
  have R: "1 \<le> x \<and> x < N" if "x \<in> set R" for x using mem[of x] that by simp
  have c: "x \<in> set R \<or> x = P" if "1 \<le> x" "x < N" for x using mem[of x] that by auto
  from R[of N] R[of "N + 1"] R[of "N + 2"] have "N \<notin> set R" "N + 1 \<notin> set R" "N + 2 \<notin> set R"
    by auto
  with assms(1) P show "distinct (R @ [N] @ [P, N + 1, N + 2])"
    by simp
  show "set (R @ [N] @ [P, N + 1, N + 2]) = {1..<N + 3}"
  proof (rule set_eqI)
    fix x
    show "x \<in> set (R @ [N] @ [P, N + 1, N + 2]) \<longleftrightarrow> x \<in> {1..<N + 3}"
    proof
      assume "x \<in> set (R @ [N] @ [P, N + 1, N + 2])"
      then have "x \<in> set R \<or> x = N \<or> x = P \<or> x = N + 1 \<or> x = N + 2" by auto
      with R[of x] P show "x \<in> {1..<N + 3}" by auto
    next
      assume "x \<in> {1..<N + 3}"
      then have "1 \<le> x" "x < N \<or> x = N \<or> x = N + 1 \<or> x = N + 2" by auto
      with c[of x] show "x \<in> set (R @ [N] @ [P, N + 1, N + 2])" by auto
    qed
  qed
qed

lemma DoBeginPage_page:
  assumes "ended_inv s" and "DoBeginPage rt s = Inr s'"
  shows "page_inv s'"
proof -
  note f = DoBeginPage_frame[OF assms(2)]
  note m = frame_eq_members[OF f(1)]
  have v: "m_objNumber s' = m_objNumber s + 3" "m_pagesObjNumber s' = m_pagesObjNumber s"
    "m_contentsObjNumber s' = m_objNumber s + 1" "m_xobjectObjNumber s' = m_objNumber s + 2"
    "m_images s' = []"
    using assms(1) by (simp_all add: m frame_members ended_inv_def)
  from assms(1) have d: "distinct (recorded s @ [m_pagesObjNumber s])"
    and e: "set (recorded s @ [m_pagesObjNumber s]) = {1..<m_objNumber s}"
    by (simp_all add: ended_inv_def)
  have p: "recorded s' @ pending s' =
           recorded s @ [m_objNumber s] @ [m_pagesObjNumber s, m_objNumber s + 1, m_objNumber s + 2]"
    by (simp add: f(2) pending_def v)
  show ?thesis
    unfolding page_inv_def p v
    using f(3) extend_range[OF d e] by simp
qed

lemma NextPage_page:
  assumes "page_inv s" and "NextPage rt s = Inr s'"
  shows "page_inv s'"
proof -
  from assms(2) obtain s1 where e: "DoEndPage rt s = Inr s1" and b: "DoBeginPage rt s1 = Inr s'"
    by (auto simp add: NextPage_def split: sum.splits)
  from DoEndPage_ended[OF assms(1) e] b show ?thesis
    by (rule DoBeginPage_page)
qed

lemma page_inv_same: "numbers s' = numbers s \<Longrightarrow> page_inv s \<Longrightarrow> page_inv s'"
  by (simp add: page_inv_def numbers_def)

lemma do_call_page:
  assumes "page_inv s" and "do_call rt c s = Inr s'"
  shows "page_inv s'"
proof (cases c)
  case (CallDrawImage img dx dy dw dh)
  with assms show ?thesis by (auto intro: page_inv_DrawImage)
next
  case (CallDrawImage_pixels pixels numX numY bpp stride dx dy dw dh)
  with assms show ?thesis
    by (auto simp add: DrawImage_pixels_def intro: page_inv_DrawImage split: if_splits)
next
  case CallNextPage
  with assms show ?thesis by (auto intro: NextPage_page)
next
  case (CallSetLineStyle style)
  with assms(2) have "numbers s' = numbers s" by (auto simp add: numbers_setters(1))
  then show ?thesis using assms(1) by (rule page_inv_same)
next
  case (CallSetFillStyle style)
  with assms(2) have "numbers s' = numbers s" by (auto simp add: numbers_setters(2))
  then show ?thesis using assms(1) by (rule page_inv_same)
next
  case (CallSetTextStyle style)
  with assms(2) have "numbers s' = numbers s" by (auto simp add: numbers_setters(3))
  then show ?thesis using assms(1) by (rule page_inv_same)
next
  case (CallDrawLine pt1 pt2)
  with assms(2) have "numbers s' = numbers s" by (auto simp add: numbers_draw(2))
  then show ?thesis using assms(1) by (rule page_inv_same)
next
  case (CallDrawPolyline points)
  with assms(2) have "numbers s' = numbers s" by (auto simp add: numbers_draw(1))
  then show ?thesis using assms(1) by (rule page_inv_same)
next
  case (CallDrawPolygon points)
  with assms(2) have "numbers s' = numbers s" by (auto simp add: numbers_draw(3))
  then show ?thesis using assms(1) by (rule page_inv_same)
next
  case (CallDrawRectangle box)
  with assms(2) have "numbers s' = numbers s" by (auto simp add: numbers_draw(4))
  then show ?thesis using assms(1) by (rule page_inv_same)
next
  case (CallDrawTextString point str)
  with assms(2) have "numbers s' = numbers s" by (auto simp add: numbers_draw(5))
  then show ?thesis using assms(1) by (rule page_inv_same)
next
  case (CallEnableImageCompression enable)
  with assms(2) have "numbers s' = numbers s" by (auto simp add: numbers_update(5))
  then show ?thesis using assms(1) by (rule page_inv_same)
next
  case (CallEnableContentCompression enable)
  with assms(2) have "numbers s' = numbers s" by (auto simp add: numbers_update(6))
  then show ?thesis using assms(1) by (rule page_inv_same)
qed

lemma do_calls_page:
  assumes "page_inv s" and "do_calls rt cs s = Inr s'"
  shows "page_inv s'"
  using assms
proof (induction cs arbitrary: s)
  case Nil
  then show ?case by simp
next
  case (Cons c cs)
  from Cons.prems(2) obtain s1 where c: "do_call rt c s = Inr s1" and r: "do_calls rt cs s1 = Inr s'"
    by (auto split: sum.splits)
  from do_call_page[OF Cons.prems(1) c] r show ?case
    by (rule Cons.IH)
qed


lemma frame_update2 [simp]:
  "frame (s\<lparr>m_catalogObjNumber := n\<rparr>) = (frame s)\<lparr>m_catalogObjNumber := n\<rparr>"
  "frame (s\<lparr>m_pagesObjNumber := n\<rparr>) = (frame s)\<lparr>m_pagesObjNumber := n\<rparr>"
  "frame (s\<lparr>m_pageMinimumPoints := p\<rparr>) = (frame s)\<lparr>m_pageMinimumPoints := p\<rparr>"
  "frame (s\<lparr>m_pageMaximumPoints := p\<rparr>) = (frame s)\<lparr>m_pageMaximumPoints := p\<rparr>"
  "frame (s\<lparr>m_file := f\<rparr>) = frame s"
  "frame (s\<lparr>m_crossRefs := xs\<rparr>) = frame s"
  by (simp_all add: frame_def)

lemma recorded_update2 [simp]:
  "recorded (s\<lparr>m_catalogObjNumber := n\<rparr>) = recorded s"
  "recorded (s\<lparr>m_pagesObjNumber := n\<rparr>) = recorded s"
  "recorded (s\<lparr>m_pageMinimumPoints := p\<rparr>) = recorded s"
  "recorded (s\<lparr>m_pageMaximumPoints := p\<rparr>) = recorded s"
  "recorded (s\<lparr>m_file := f\<rparr>) = recorded s"
  "recorded (s\<lparr>m_crossRefs := xs\<rparr>) = map m_objnum xs"
  by (simp_all add: recorded_def)

lemma is_open_update2 [simp]:
  "is_open (s\<lparr>m_catalogObjNumber := n\<rparr>) = is_open s"
  "is_open (s\<lparr>m_pagesObjNumber := n\<rparr>) = is_open s"
  "is_open (s\<lparr>m_pageMinimumPoints := p\<rparr>) = is_open s"
  "is_open (s\<lparr>m_pageMaximumPoints := p\<rparr>) = is_open s"
  "is_open (s\<lparr>m_file := Some f\<rparr>)"
  "is_open (s\<lparr>m_crossRefs := xs\<rparr>) = is_open s"
  by (simp_all add: is_open_def)

lemma Open_catalog_frame [simp]:
  "frame (Open_catalog s) =
     (frame s)\<lparr>m_catalogObjNumber := m_objNumber s, m_pagesObjNumber := m_objNumber s + 1,
                m_objNumber := m_objNumber s + 2\<rparr>"
  "recorded (Open_catalog s) = recorded s @ [m_objNumber s]"
  "is_open (Open_catalog s) = is_open s"
  by (simp_all add: Open_catalog_def Let_def)

lemma Close_closed: "m_file s = None \<Longrightarrow> Close rt idnum s = Inr s"
  by (simp add: Close_def)

lemma Open_page:
  assumes "closed_document s0"
    and "Open rt idnum filename pageMinimumPoints pageMaximumPoints s0 = Inr s1"
  shows "page_inv s1" and "m_images s1 = []" and "m_objNumber s1 = 6"
proof -
  let ?a = "s0\<lparr>m_pageMinimumPoints := pageMinimumPoints,
                m_pageMaximumPoints := pageMaximumPoints, m_file := Some []\<rparr>"
  let ?c = "Open_catalog ?a"
  from assms have b: "DoBeginPage rt ?c = Inr s1"
    by (auto simp add: Open_def Close_closed closed_document_def Let_def split: if_splits)
  note m = frame_eq_members[OF Open_catalog_frame(1), of ?a]
  have v: "m_objNumber ?c = 3" "m_pagesObjNumber ?c = 2" "m_images ?c = []"
    using assms(1) by (simp_all add: m closed_document_def frame_def)
  have r0: "recorded s0 = []" "m_objNumber s0 = 1"
    using assms(1) by (simp_all add: closed_document_def recorded_def)
  have r: "recorded ?c = [1]" "is_open ?c"
    by (simp_all add: r0)
  have e: "ended_inv ?c"
    unfolding ended_inv_def v r by auto
  from e b show "page_inv s1" by (rule DoBeginPage_page)
  note f = frame_eq_members[OF DoBeginPage_frame(1)[OF b]]
  show "m_images s1 = []" "m_objNumber s1 = 6"
    using assms(1) by (simp_all add: f frame_members v closed_document_def)
qed

lemma Open_returns:
  assumes "closed_document s0" and "wfopen_ok rt filename"
  shows "\<exists>s1. Open rt idnum filename pageMinimumPoints pageMaximumPoints s0 = Inr s1"
proof -
  let ?a = "s0\<lparr>m_pageMinimumPoints := pageMinimumPoints,
                m_pageMaximumPoints := pageMaximumPoints, m_file := Some []\<rparr>"
  have "is_open (Open_catalog ?a)" by simp
  from DoBeginPage_returns[OF this, of rt] assms show ?thesis
    by (simp add: Open_def Close_closed closed_document_def Let_def)
qed


lemma fprintf_Nil [simp]: "fprintf [] s = s"
  by (cases "m_file s") (simp_all add: fprintf_def option.map_ident)

lemma foldl_fprintf:
  "foldl (\<lambda>s x. fprintf (g x) s) s xs = fprintf (concat (map g xs)) s"
  by (induction xs arbitrary: s) (simp_all add: fprintf_fprintf)

lemma Close_pages_frame [simp]:
  "frame (Close_pages s) = frame s"
  "recorded (Close_pages s) = recorded s @ [m_pagesObjNumber s]"
  "is_open (Close_pages s) = is_open s"
  by (simp_all add: Close_pages_def Let_def foldl_fprintf)

lemma m_crossRefs_fprintf [simp]: "m_crossRefs (fprintf t s) = m_crossRefs s"
  by (simp add: fprintf_def)

lemma Close_xref_frame [simp]:
  "frame (Close_xref idnum s) = frame s"
  "m_crossRefs (Close_xref idnum s) = sort_key m_objnum (m_crossRefs s)"
  "is_open (Close_xref idnum s) = is_open s"
  by (simp_all add: Close_xref_def Let_def foldl_fprintf)

lemma Close_xref_file:
  assumes "m_file s = Some f"
  shows "m_file (Close_xref idnum s) =
           Some (f @ xref_section idnum (length f + 2) (sort_key m_objnum (m_crossRefs s)))"
  using assms
  by (simp add: Close_xref_def Let_def foldl_fprintf fprintf_fprintf xref_section_def
        xref_count_def)
     (simp add: fprintf_def ftell_def CRLF_def)

lemma sorted_table:
  fixes f :: "'a \<Rightarrow> nat"
  assumes "distinct (map f xs)" and "set (map f xs) = {1..<N}"
  shows "map f (sort_key f xs) = [1..<N]"
proof (rule sorted_distinct_set_unique)
  show "sorted (map f (sort_key f xs))" by (rule sorted_sort_key)
  have s: "set (map f (sort_key f xs)) = set (map f xs)" by simp
  have "card (set (map f (sort_key f xs))) = length (map f (sort_key f xs))"
    unfolding s using distinct_card[OF assms(1)] by simp
  then show "distinct (map f (sort_key f xs))" by (rule card_distinct)
  show "sorted [1..<N]" by simp
  show "distinct [1..<N]" by simp
  show "set (map f (sort_key f xs)) = set [1..<N]" unfolding s using assms(2) by simp
qed

lemma DoEndPage_returns:
  assumes "is_open s" and "m_images s = []"
  shows "\<exists>s'. DoEndPage rt s = Inr s'"
proof -
  let ?s1 = "DoEndPage_xobjects (DoEndPage_contents rt s)"
  have "m_images ?s1 = m_images s" by (rule frame_eqD) simp
  then have "m_images ?s1 = []" using assms(2) by simp
  with assms(1) show ?thesis
    by (simp add: DoEndPage_def Let_def is_open_def)
qed

lemma Close_write_table:
  assumes "page_inv s" and "Close_write rt idnum s = Inr s'"
  shows "map m_objnum (m_crossRefs s') = [1..<m_objNumber s']"
    and "2 \<le> m_objNumber s'"
    and "\<exists>f. m_file s' = Some (f @ xref_section idnum (length f + 2) (m_crossRefs s'))"
    and "Close rt idnum s = Inr (Close_reset s')"
proof -
  from assms(2) obtain s1 where e: "DoEndPage rt s = Inr s1"
    and s': "s' = Close_xref idnum (Close_pages s1)"
    by (auto simp add: Close_write_def split: sum.splits)
  from DoEndPage_ended[OF assms(1) e]
  have i: "is_open s1" "distinct (recorded s1 @ [m_pagesObjNumber s1])"
    "set (recorded s1 @ [m_pagesObjNumber s1]) = {1..<m_objNumber s1}"
    by (simp_all add: ended_inv_def)
  have n: "m_objNumber s' = m_objNumber s1"
    unfolding s' using frame_eq_members(1)[OF Close_xref_frame(1), of idnum "Close_pages s1"]
      frame_eq_members(1)[OF Close_pages_frame(1), of s1]
    by (simp add: frame_members)
  have r: "map m_objnum (m_crossRefs (Close_pages s1)) = recorded s1 @ [m_pagesObjNumber s1]"
    using Close_pages_frame(2)[of s1] by (simp add: recorded_def)
  have "map m_objnum (sort_key m_objnum (m_crossRefs (Close_pages s1))) = [1..<m_objNumber s1]"
    by (rule sorted_table) (simp_all only: r i)
  then show "map m_objnum (m_crossRefs s') = [1..<m_objNumber s']"
    by (simp add: s' n[unfolded s'])
  from i(3) have "m_pagesObjNumber s1 \<in> {1..<m_objNumber s1}" by auto
  then show "2 \<le> m_objNumber s'" unfolding n by simp
  from i(1) have "is_open (Close_pages s1)" by simp
  then obtain f where f: "m_file (Close_pages s1) = Some f"
    by (auto simp add: is_open_def)
  from Close_xref_file[OF f, of idnum]
  show "\<exists>f. m_file s' = Some (f @ xref_section idnum (length f + 2) (m_crossRefs s'))"
    by (auto simp add: s')
  from DoEndPage_frame(4)[OF e] have "m_file s \<noteq> None" by (simp add: is_open_def)
  then show "Close rt idnum s = Inr (Close_reset s')"
    by (auto simp add: Close_def assms(2))
qed


lemma images_same: "numbers s' = numbers s \<Longrightarrow> m_images s = [] \<Longrightarrow> m_images s' = []"
  by (simp add: numbers_def pending_def)

lemma objNumber_same: "numbers s' = numbers s \<Longrightarrow> m_objNumber s' = m_objNumber s"
  by (simp add: numbers_def)

lemma NextPage_objNumber:
  assumes "NextPage rt s = Inr s'"
  shows "m_objNumber s' = m_objNumber s + 3" and "m_images s' = []"
proof -
  from assms obtain s1 where e: "DoEndPage rt s = Inr s1" and b: "DoBeginPage rt s1 = Inr s'"
    by (auto simp add: NextPage_def split: sum.splits)
  note fe = frame_eq_members[OF DoEndPage_frame(1)[OF e]]
  note fb = frame_eq_members[OF DoBeginPage_frame(1)[OF b]]
  show "m_objNumber s' = m_objNumber s + 3" "m_images s' = []"
    by (simp_all add: fe fb frame_members)
qed

lemma Close_write_returns:
  assumes "is_open s" and "m_images s = []"
  shows "\<exists>s'. Close_write rt idnum s = Inr s'"
  using DoEndPage_returns[OF assms, of rt] by (auto simp add: Close_write_def)

lemma Close_write_objNumber:
  assumes "Close_write rt idnum s = Inr s'"
  shows "m_objNumber s' = m_objNumber s"
proof -
  from assms obtain s1 where e: "DoEndPage rt s = Inr s1"
    and s': "s' = Close_xref idnum (Close_pages s1)"
    by (auto simp add: Close_write_def split: sum.splits)
  note fe = frame_eq_members(1)[OF DoEndPage_frame(1)[OF e]]
  show ?thesis
    unfolding s' using frame_eq_members(1)[OF Close_xref_frame(1), of idnum "Close_pages s1"]
      frame_eq_members(1)[OF Close_pages_frame(1), of s1]
    by (simp add: frame_members fe)
qed

section \<open>The Base-85 encoder\<close>

text \<open>
  Claim C5 says that encoding zero bytes gives exactly the terminator, \<open>~>\<close> and a line
  break.  \<open>EncodeToAscii85\<close> returns before it writes anything when there is nothing to
  encode, so the output is empty.
\<close>

theorem EncodeToAscii85_empty_is_not_terminator:
  "EncodeToAscii85 [] \<noteq> [CHR ''~'', CHR ''>'', CHR 0x0D, CHR 0x0A]"
  by (simp add: EncodeToAscii85_def)

text \<open>
  Claim C5, amended: encoding zero bytes gives no output at all, and the encoding of
  every input of at least one byte ends with the terminator \<open>~>\<close> and a line break.
\<close>

theorem EncodeToAscii85_terminator:
  "EncodeToAscii85 [] = [] \<and>
   (data \<noteq> [] \<longrightarrow>
      (\<exists>body. EncodeToAscii85 data = body @ [CHR ''~'', CHR ''>'', CHR 0x0D, CHR 0x0A]))"
  by (cases data) (simp_all add: EncodeToAscii85_def Let_def)

theorem EncodeToAscii85_terminator_witness:
  "[CHR 0x01] \<noteq> [] \<and>
   (\<exists>body. EncodeToAscii85 [CHR 0x01] = body @ [CHR ''~'', CHR ''>'', CHR 0x0D, CHR 0x0A])"
  using EncodeToAscii85_terminator [of "[CHR 0x01]"] by simp

text \<open>
  Claim C6 says that no line of the output has more than 72 characters.  The test
  \<open>m_column++ >= lineWidth\<close> compares the column before the increment, so the line break
  comes after the 73rd character: 292 zero bytes are 73 full groups, each encoded as
  \<open>z\<close>, and all 73 stand on the first line, before the first line break.
\<close>

theorem EncodeToAscii85_line_of_73:
  "EncodeToAscii85 (replicate 292 (CHR 0x00)) =
     replicate 73 (CHR ''z'') @ CRLF @ ''~>'' @ CRLF"
  unfolding CRLF_def by (rule line_of_73)

text \<open>
  Claim C2: decoding the output of the encoder gives back the input, for every input,
  the empty one included (its encoding is empty, and so is what the decoder reads from
  it).  The character \<open>z\<close> occurs in the output once for every full group of four zero
  bytes and nowhere else: not for a last group of one to three bytes, whatever their
  values.
\<close>

theorem Ascii85_round_trip:
  "DecodeAscii85 (EncodeToAscii85 data) = Some data \<and>
   length (filter (\<lambda>c. c = CHR ''z'') (EncodeToAscii85 data)) = zero_groups data"
  by (simp only: round_trip z_count)

theorem Ascii85_round_trip_witness:
  "DecodeAscii85 (EncodeToAscii85 [CHR 0x00, CHR 0x00, CHR 0x00, CHR 0x00, CHR 0x00, CHR 0x00]) =
     Some [CHR 0x00, CHR 0x00, CHR 0x00, CHR 0x00, CHR 0x00, CHR 0x00] \<and>
   length (filter (\<lambda>c. c = CHR ''z'')
     (EncodeToAscii85 [CHR 0x00, CHR 0x00, CHR 0x00, CHR 0x00, CHR 0x00, CHR 0x00])) = 1"
  using Ascii85_round_trip [of "[CHR 0x00, CHR 0x00, CHR 0x00, CHR 0x00, CHR 0x00, CHR 0x00]"]
  by simp

section \<open>The stream accumulator\<close>

text \<open>
  Claim C7 says that a text that does not fit is appended truncated to what fitted into
  the largest buffer tried.  A text of 8192 characters fits into no buffer that \<open>Printf\<close>
  tries, and nothing of it is appended: neither its first 8191 characters (what a buffer
  of 8192 bytes holds) nor the text itself (what a buffer of 16 KiB would hold).
\<close>

theorem Printf_long_text_not_truncated:
  "m_data (Printf (replicate 8192 (CHR ''a'')) \<lparr>m_data = []\<rparr>) \<noteq>
     take 8191 (replicate 8192 (CHR ''a'')) \<and>
   m_data (Printf (replicate 8192 (CHR ''a'')) \<lparr>m_data = []\<rparr>) \<noteq>
     take 16383 (replicate 8192 (CHR ''a''))"
proof -
  have "length (m_data (Printf (replicate 8192 (CHR ''a'')) \<lparr>m_data = []\<rparr>)) = 0"
    by (simp add: Printf_def AddData_def Printf_loop_32)
  moreover have "length (take 8191 (replicate 8192 (CHR ''a''))) = 8191"
    by (simp only: length_take length_replicate; simp)
  moreover have "length (take 16383 (replicate 8192 (CHR ''a''))) = 8192"
    by (simp only: length_take length_replicate; simp)
  ultimately show ?thesis
    by (metis zero_neq_numeral)
qed

text \<open>
  Claim C7, amended: the scratch buffer starts at 32 bytes and doubles while it is smaller
  than 16 KiB, so the largest buffer tried has 8192 bytes; a rendering of fewer than 8192
  characters is appended whole (as a C string, that is up to its first NUL if it has one),
  and a rendering of 8192 characters or more appends nothing.
\<close>

theorem Printf_whole_or_nothing:
  "Printf_sizes 32 = [32, 64, 128, 256, 512, 1024, 2048, 4096, 8192] \<and>
   (length text < 8192 \<longrightarrow> Printf text acc = AddData (c_str text) acc) \<and>
   (8192 \<le> length text \<longrightarrow> Printf text acc = acc)"
  by (simp add: Printf_sizes_32 Printf_def Printf_loop_32 AddData_def)

theorem Printf_whole_or_nothing_witness:
  "length ''S'' < 8192 \<and>
   Printf ''S'' \<lparr>m_data = ''q''\<rparr> = \<lparr>m_data = ''qS''\<rparr> \<and>
   8192 \<le> length (replicate 8192 (CHR ''a'')) \<and>
   Printf (replicate 8192 (CHR ''a'')) \<lparr>m_data = ''q''\<rparr> = \<lparr>m_data = ''q''\<rparr>"
  using Printf_whole_or_nothing [of "''S''" "\<lparr>m_data = ''q''\<rparr>"]
    Printf_whole_or_nothing [of "replicate 8192 (CHR ''a'')" "\<lparr>m_data = ''q''\<rparr>"]
  by (simp add: AddData_def c_str_def)

section \<open>Drawing calls\<close>

text \<open>
  Claim C4: a polygon drawn with line pattern null and fill pattern null leaves the state
  as it is, so nothing is appended to the content stream; with line solid and fill solid
  the path operators are followed by \<open>h\<close> (close path) and \<open>B*\<close> (stroke and fill,
  even-odd); with only the fill solid by \<open>h\<close> and \<open>f*\<close> (fill, even-odd); with only the line
  solid by \<open>h\<close> and \<open>S\<close> (stroke).  A polyline drawn with line pattern null leaves the state
  as it is.  This holds for every list of points.
\<close>

theorem DrawPolygon_fill_rule_table:
  "(PDFLineStyle.m_pattern (m_lineStyle s) = LINE_NULL \<and>
    PDFFillStyle.m_pattern (m_fillStyle s) = FILL_NULL \<longrightarrow>
      DrawPolygon rt points s = s) \<and>
   (PDFLineStyle.m_pattern (m_lineStyle s) = LINE_SOLID \<and>
    PDFFillStyle.m_pattern (m_fillStyle s) = FILL_SOLID \<longrightarrow>
      DrawPolygon rt points s =
        s\<lparr>m_contentStream :=
             AddData (path_text rt points True @ ''h'' @ CRLF @ ''B*'' @ CRLF)
               (m_contentStream s)\<rparr>) \<and>
   (PDFLineStyle.m_pattern (m_lineStyle s) = LINE_NULL \<and>
    PDFFillStyle.m_pattern (m_fillStyle s) = FILL_SOLID \<longrightarrow>
      DrawPolygon rt points s =
        s\<lparr>m_contentStream :=
             AddData (path_text rt points True @ ''h'' @ CRLF @ ''f*'' @ CRLF)
               (m_contentStream s)\<rparr>) \<and>
   (PDFLineStyle.m_pattern (m_lineStyle s) = LINE_SOLID \<and>
    PDFFillStyle.m_pattern (m_fillStyle s) = FILL_NULL \<longrightarrow>
      DrawPolygon rt points s =
        s\<lparr>m_contentStream :=
             AddData (path_text rt points True @ ''h'' @ CRLF @ ''S'' @ CRLF)
               (m_contentStream s)\<rparr>) \<and>
   (PDFLineStyle.m_pattern (m_lineStyle s) = LINE_NULL \<longrightarrow>
      DrawPolyline rt points s = s)"
  by (simp add: DrawPolygon_def DrawPolyline_def path_loop_eq content_Printf_short CRLF_def
        AddData_AddData Let_def)



theorem DrawPolygon_fill_rule_table_witness:
  "DrawPolygon example_runtime [\<lparr>pt_x = 1, pt_y = 2\<rparr>]
     (Draw2pdf_default\<lparr>m_lineStyle := PDFLineStyle_default\<lparr>PDFLineStyle.m_pattern := LINE_NULL\<rparr>,
                       m_fillStyle := PDFFillStyle_default\<lparr>PDFFillStyle.m_pattern := FILL_NULL\<rparr>\<rparr>) =
     Draw2pdf_default\<lparr>m_lineStyle := PDFLineStyle_default\<lparr>PDFLineStyle.m_pattern := LINE_NULL\<rparr>,
                      m_fillStyle := PDFFillStyle_default\<lparr>PDFFillStyle.m_pattern := FILL_NULL\<rparr>\<rparr> \<and>
   m_data (m_contentStream (DrawPolygon example_runtime [\<lparr>pt_x = 1, pt_y = 2\<rparr>] Draw2pdf_default)) =
     path_text example_runtime [\<lparr>pt_x = 1, pt_y = 2\<rparr>] True @ ''h'' @ CRLF @ ''B*'' @ CRLF \<and>
   m_data (m_contentStream (DrawPolygon example_runtime [\<lparr>pt_x = 1, pt_y = 2\<rparr>]
     (Draw2pdf_default\<lparr>m_lineStyle := PDFLineStyle_default\<lparr>PDFLineStyle.m_pattern := LINE_NULL\<rparr>\<rparr>))) =
     path_text example_runtime [\<lparr>pt_x = 1, pt_y = 2\<rparr>] True @ ''h'' @ CRLF @ ''f*'' @ CRLF \<and>
   m_data (m_contentStream (DrawPolygon example_runtime [\<lparr>pt_x = 1, pt_y = 2\<rparr>]
     (Draw2pdf_default\<lparr>m_fillStyle := PDFFillStyle_default\<lparr>PDFFillStyle.m_pattern := FILL_NULL\<rparr>\<rparr>))) =
     path_text example_runtime [\<lparr>pt_x = 1, pt_y = 2\<rparr>] True @ ''h'' @ CRLF @ ''S'' @ CRLF \<and>
   DrawPolyline example_runtime [\<lparr>pt_x = 1, pt_y = 2\<rparr>]
     (Draw2pdf_default\<lparr>m_lineStyle := PDFLineStyle_default\<lparr>PDFLineStyle.m_pattern := LINE_NULL\<rparr>\<rparr>) =
     Draw2pdf_default\<lparr>m_lineStyle := PDFLineStyle_default\<lparr>PDFLineStyle.m_pattern := LINE_NULL\<rparr>\<rparr>"
  using
    DrawPolygon_fill_rule_table [of
      "Draw2pdf_default\<lparr>m_lineStyle := PDFLineStyle_default\<lparr>PDFLineStyle.m_pattern := LINE_NULL\<rparr>,
                        m_fillStyle := PDFFillStyle_default\<lparr>PDFFillStyle.m_pattern := FILL_NULL\<rparr>\<rparr>"
      example_runtime "[\<lparr>pt_x = 1, pt_y = 2\<rparr>]"]
    DrawPolygon_fill_rule_table [of Draw2pdf_default example_runtime "[\<lparr>pt_x = 1, pt_y = 2\<rparr>]"]
    DrawPolygon_fill_rule_table [of
      "Draw2pdf_default\<lparr>m_lineStyle := PDFLineStyle_default\<lparr>PDFLineStyle.m_pattern := LINE_NULL\<rparr>\<rparr>"
      example_runtime "[\<lparr>pt_x = 1, pt_y = 2\<rparr>]"]
    DrawPolygon_fill_rule_table [of
      "Draw2pdf_default\<lparr>m_fillStyle := PDFFillStyle_default\<lparr>PDFFillStyle.m_pattern := FILL_NULL\<rparr>\<rparr>"
      example_runtime "[\<lparr>pt_x = 1, pt_y = 2\<rparr>]"]
  by (simp add: Draw2pdf_default_def PDFLineStyle_default_def PDFFillStyle_default_def AddData_def)

text \<open>
  Claim C9: drawing a rectangle is drawing the polygon of its four corners in the order
  (min.x, min.y), (max.x, min.y), (max.x, max.y), (min.x, max.y); the two calls give the
  same state, and with it the same content stream, whatever the current styles are.
\<close>

theorem DrawRectangle_is_DrawPolygon:
  "DrawRectangle rt box s =
     DrawPolygon rt
       [\<lparr>pt_x = pt_x (m_min box), pt_y = pt_y (m_min box)\<rparr>,
        \<lparr>pt_x = pt_x (m_max box), pt_y = pt_y (m_min box)\<rparr>,
        \<lparr>pt_x = pt_x (m_max box), pt_y = pt_y (m_max box)\<rparr>,
        \<lparr>pt_x = pt_x (m_min box), pt_y = pt_y (m_max box)\<rparr>] s"
  by (simp add: DrawRectangle_def)

theorem DrawRectangle_is_DrawPolygon_witness:
  "DrawRectangle example_runtime
     \<lparr>m_min = \<lparr>pt_x = 1, pt_y = 2\<rparr>, m_max = \<lparr>pt_x = 3, pt_y = 4\<rparr>\<rparr> Draw2pdf_default =
   DrawPolygon example_runtime
     [\<lparr>pt_x = 1, pt_y = 2\<rparr>, \<lparr>pt_x = 3, pt_y = 2\<rparr>, \<lparr>pt_x = 3, pt_y = 4\<rparr>, \<lparr>pt_x = 1, pt_y = 4\<rparr>]
     Draw2pdf_default"
  using DrawRectangle_is_DrawPolygon [of example_runtime
      "\<lparr>m_min = \<lparr>pt_x = 1, pt_y = 2\<rparr>, m_max = \<lparr>pt_x = 3, pt_y = 4\<rparr>\<rparr>" Draw2pdf_default]
  by simp

text \<open>
  Claim C10: \<open>SetLineStyle\<close> stores the style and appends the stroke colour (\<open>RG\<close>) and the
  stroke width (\<open>w\<close>) to the content stream in the call itself, \<open>SetFillStyle\<close> stores the
  style and appends the fill colour (\<open>rg\<close>), \<open>SetTextStyle\<close> only stores the style.
  \<open>NextPage\<close> keeps the three stored styles and leaves the content stream empty, so the
  new page has no style operator until a setter is called again.
\<close>

theorem style_setters_write_at_once:
  assumes "fmt_lf_ok rt"
  shows
    "SetLineStyle rt style s =
       s\<lparr>m_lineStyle := style,
         m_contentStream :=
           AddData (fmt_lf rt (m_red (PDFLineStyle.m_color style)) @ '' '' @
                    fmt_lf rt (m_green (PDFLineStyle.m_color style)) @ '' '' @
                    fmt_lf rt (m_blue (PDFLineStyle.m_color style)) @ '' RG'' @ CRLF @
                    fmt_lf rt (m_width style) @ '' w'' @ CRLF)
             (m_contentStream s)\<rparr> \<and>
     SetFillStyle rt fill s =
       s\<lparr>m_fillStyle := fill,
         m_contentStream :=
           AddData (fmt_lf rt (m_red (PDFFillStyle.m_color fill)) @ '' '' @
                    fmt_lf rt (m_green (PDFFillStyle.m_color fill)) @ '' '' @
                    fmt_lf rt (m_blue (PDFFillStyle.m_color fill)) @ '' rg'' @ CRLF)
             (m_contentStream s)\<rparr> \<and>
     SetTextStyle text s = s\<lparr>m_textStyle := text\<rparr> \<and>
     (\<forall>s'. NextPage rt s = Inr s' \<longrightarrow>
        m_lineStyle s' = m_lineStyle s \<and> m_fillStyle s' = m_fillStyle s \<and>
        m_textStyle s' = m_textStyle s \<and> m_data (m_contentStream s') = [])"
proof -
  note l = fmt_lf_okD(1)[OF assms] and z = fmt_lf_okD(2)[OF assms]
  have line: "SetLineStyle rt style s =
       s\<lparr>m_lineStyle := style,
         m_contentStream :=
           AddData (fmt_lf rt (m_red (PDFLineStyle.m_color style)) @ '' '' @
                    fmt_lf rt (m_green (PDFLineStyle.m_color style)) @ '' '' @
                    fmt_lf rt (m_blue (PDFLineStyle.m_color style)) @ '' RG'' @ CRLF @
                    fmt_lf rt (m_width style) @ '' w'' @ CRLF)
             (m_contentStream s)\<rparr>"
    using l[of "m_red (PDFLineStyle.m_color style)"] l[of "m_green (PDFLineStyle.m_color style)"]
      l[of "m_blue (PDFLineStyle.m_color style)"] l[of "m_width style"]
    by (simp add: SetLineStyle_def Let_def content_Printf_short z CRLF_def AddData_AddData)
  have fill: "SetFillStyle rt fill s =
       s\<lparr>m_fillStyle := fill,
         m_contentStream :=
           AddData (fmt_lf rt (m_red (PDFFillStyle.m_color fill)) @ '' '' @
                    fmt_lf rt (m_green (PDFFillStyle.m_color fill)) @ '' '' @
                    fmt_lf rt (m_blue (PDFFillStyle.m_color fill)) @ '' rg'' @ CRLF)
             (m_contentStream s)\<rparr>"
    using l[of "m_red (PDFFillStyle.m_color fill)"] l[of "m_green (PDFFillStyle.m_color fill)"]
      l[of "m_blue (PDFFillStyle.m_color fill)"]
    by (simp add: SetFillStyle_def Let_def content_Printf_short z CRLF_def)
  show ?thesis
    by (simp add: line fill SetTextStyle_def NextPage_frame)
qed


theorem style_setters_write_at_once_witness:
  "fmt_lf_ok example_runtime \<and>
   m_data (m_contentStream (SetLineStyle example_runtime PDFLineStyle_default Draw2pdf_default)) =
     ''0.000000 0.000000 0.000000 RG'' @ CRLF @ ''0.000000 w'' @ CRLF \<and>
   m_data (m_contentStream (SetFillStyle example_runtime PDFFillStyle_default Draw2pdf_default)) =
     ''0.000000 0.000000 0.000000 rg'' @ CRLF \<and>
   m_contentStream (SetTextStyle PDFTextStyle_default Draw2pdf_default) =
     m_contentStream Draw2pdf_default \<and>
   (\<exists>s'. NextPage example_runtime
           (SetLineStyle example_runtime PDFLineStyle_default
              (Draw2pdf_default\<lparr>m_file := Some []\<rparr>)) = Inr s' \<and>
         m_lineStyle s' = PDFLineStyle_default \<and> m_data (m_contentStream s') = [])"
proof -
  let ?init = "Draw2pdf_default\<lparr>m_file := Some []\<rparr>"
  let ?s = "SetLineStyle example_runtime PDFLineStyle_default ?init"
  note t = style_setters_write_at_once [OF fmt_lf_ok_example]
  have f: "fmt_lf example_runtime = (\<lambda>v. ''0.000000'')"
    by (simp add: example_runtime_def)
  from t [of PDFLineStyle_default Draw2pdf_default]
  have a: "m_data (m_contentStream
             (SetLineStyle example_runtime PDFLineStyle_default Draw2pdf_default)) =
           ''0.000000 0.000000 0.000000 RG'' @ CRLF @ ''0.000000 w'' @ CRLF"
    by (simp add: f AddData_def Draw2pdf_default_def)
  from t [of _ Draw2pdf_default PDFFillStyle_default]
  have b: "m_data (m_contentStream
             (SetFillStyle example_runtime PDFFillStyle_default Draw2pdf_default)) =
           ''0.000000 0.000000 0.000000 rg'' @ CRLF"
    by (simp add: f AddData_def Draw2pdf_default_def)
  from t [of _ Draw2pdf_default _ PDFTextStyle_default]
  have c: "m_contentStream (SetTextStyle PDFTextStyle_default Draw2pdf_default) =
           m_contentStream Draw2pdf_default"
    by simp
  have eq: "?s = ?init\<lparr>m_lineStyle := PDFLineStyle_default,
         m_contentStream :=
           AddData (fmt_lf example_runtime (m_red (PDFLineStyle.m_color PDFLineStyle_default)) @ '' '' @
                    fmt_lf example_runtime (m_green (PDFLineStyle.m_color PDFLineStyle_default)) @ '' '' @
                    fmt_lf example_runtime (m_blue (PDFLineStyle.m_color PDFLineStyle_default)) @
                    '' RG'' @ CRLF @
                    fmt_lf example_runtime (m_width PDFLineStyle_default) @ '' w'' @ CRLF)
             (m_contentStream ?init)\<rparr>"
    using t [of PDFLineStyle_default ?init] by (rule conjunct1)
  have s: "m_lineStyle ?s = PDFLineStyle_default" "is_open ?s" "m_images ?s = []"
    unfolding eq by (simp_all add: is_open_def Draw2pdf_default_def)
  from NextPage_returns [OF s(2,3)] obtain s' where
    n: "NextPage example_runtime ?s = Inr s'" by blast
  from t [of _ ?s] n have "m_lineStyle s' = m_lineStyle ?s \<and> m_data (m_contentStream s') = []"
    by blast
  with n s(1) have d: "\<exists>s'. NextPage example_runtime ?s = Inr s' \<and>
         m_lineStyle s' = PDFLineStyle_default \<and> m_data (m_contentStream s') = []"
    by auto
  from fmt_lf_ok_example a b c d show ?thesis
    by blast
qed

section \<open>Images\<close>

text \<open>
  Claim C3 says that repacking a 32-bit image gives exactly \<open>3 * W * H\<close> tightly packed
  bytes.  \<open>DoWriteImage\<close> sizes \<open>rawData\<close> and places each scanline with \<open>m_bpp / 8\<close>, which
  is four bytes per pixel, while it copies three: an image one pixel wide and two pixels
  high comes out as eight bytes, with a zero byte after each pixel's three.
\<close>

theorem repack_32_bit_keeps_padding:
  "repack example_image =
     Inr [CHR 0x01, CHR 0x02, CHR 0x03, CHR 0x00, CHR 0x05, CHR 0x06, CHR 0x07, CHR 0x00] \<and>
   3 * m_numX example_image * m_numY example_image = 6"
  by (simp add: repack_example_image) (simp add: example_image_def)

text \<open>
  Claim C8: when an image is written with compression and the compressor does not return
  \<open>Z_OK\<close>, the encoded data is empty, the dictionary declares \<open>/Length 0\<close> under the filter
  \<open>/FlateDecode\<close> and the stream between \<open>stream\<close> and \<open>endstream\<close> has no bytes; the
  Base-85 encoder is not used instead.
\<close>

theorem compression_failure_gives_empty_payload:
  assumes "m_file s \<noteq> None" and "index < length (m_images s)"
    and "repack (m_images s ! index) = Inr rawData"
    and "fst (zlib_compress rt (length rawData + 8192) rawData) \<noteq> Z_OK"
  shows "encode_image rt True rawData = [] \<and>
         DoWriteImage rt index True s =
           Inr (fprintf (''/Filter /FlateDecode'' @ CRLF @ ''/Length 0'' @ CRLF @ ''>>'' @ CRLF @
                         ''stream'' @ CRLF @ [] @ CRLF @ ''endstream'' @ CRLF @
                         ''endobj'' @ CRLF)
                  (DoWriteImage_dict (m_images s ! index) index s))"
  using assms
  by (simp add: DoWriteImage_def DoWriteImage_payload_def encode_image_def DeflateData_fails
        Let_def zu_0 fprintf_fprintf)


theorem compression_failure_gives_empty_payload_witness:
  "encode_image failing_runtime True
     [CHR 0x01, CHR 0x02, CHR 0x03, CHR 0x00, CHR 0x05, CHR 0x06, CHR 0x07, CHR 0x00] = [] \<and>
   DoWriteImage failing_runtime 0 True
     (Draw2pdf_default\<lparr>m_file := Some [], m_images := [example_image]\<rparr>) =
     Inr (fprintf (''/Filter /FlateDecode'' @ CRLF @ ''/Length 0'' @ CRLF @ ''>>'' @ CRLF @
                   ''stream'' @ CRLF @ [] @ CRLF @ ''endstream'' @ CRLF @ ''endobj'' @ CRLF)
            (DoWriteImage_dict example_image 0
               (Draw2pdf_default\<lparr>m_file := Some [], m_images := [example_image]\<rparr>)))"
  using compression_failure_gives_empty_payload [of
      "Draw2pdf_default\<lparr>m_file := Some [], m_images := [example_image]\<rparr>" 0
      "[CHR 0x01, CHR 0x02, CHR 0x03, CHR 0x00, CHR 0x05, CHR 0x06, CHR 0x07, CHR 0x00]"
      failing_runtime]
  by (simp add: repack_example_image failing_runtime_def Z_OK_def)

section \<open>The cross-reference table\<close>

text \<open>
  Claim C1: take a document that is not open, \<open>Open\<close> it, make any list of calls (style
  setters, drawing calls with or without images, \<open>NextPage\<close>, the two compression
  switches) and \<open>Close\<close> it.  The table that \<open>Close\<close> sorts and writes then holds the object
  numbers from 1 to \<open>m_objNumber - 1\<close>, which are the numbers given out by \<open>m_objNumber++\<close>,
  each once and in ascending order; the count printed on the first line of the table is
  the largest object number plus one; and the file ends with the \<open>xref\<close> section made from
  this table.  The state \<open>s3\<close> is the one at the end-of-file marker (\<open>Close\<close> clears
  \<open>m_crossRefs\<close> afterwards).  The hypotheses say that the calls return: the file can be
  opened and no image is read outside its pixels.
\<close>

theorem xref_table_lists_every_object:
  assumes "closed_document s0"
    and "Open rt idnum0 filename pageMinimumPoints pageMaximumPoints s0 = Inr s1"
    and "do_calls rt calls s1 = Inr s2"
    and "Close_write rt idnum s2 = Inr s3"
  shows "map m_objnum (m_crossRefs s3) = [1..<m_objNumber s3] \<and>
         xref_count s3 = Max (set (map m_objnum (m_crossRefs s3))) + 1 \<and>
         (\<exists>f. m_file s3 = Some (f @ xref_section idnum (length f + 2) (m_crossRefs s3))) \<and>
         Close rt idnum s2 = Inr (Close_reset s3)"
proof -
  have "page_inv s2"
    using Open_page(1)[OF assms(1,2)] assms(3) by (rule do_calls_page)
  note t = Close_write_table[OF this assms(4)]
  have "length (m_crossRefs s3) = length (map m_objnum (m_crossRefs s3))" by simp
  also have "\<dots> = m_objNumber s3 - 1" unfolding t(1) by simp
  finally have c: "xref_count s3 = m_objNumber s3" using t(2) by (simp add: xref_count_def)
  have "Max (set [1..<m_objNumber s3]) = m_objNumber s3 - 1"
    using t(2) by (intro Max_eqI) auto
  with c t show ?thesis by simp
qed

theorem xref_table_lists_every_object_witness:
  "\<exists>s1 s2 s3.
     closed_document Draw2pdf_default \<and>
     Open example_runtime 0 [] PDFPoint_default \<lparr>pt_x = 612, pt_y = 792\<rparr> Draw2pdf_default = Inr s1 \<and>
     do_calls example_runtime
       [CallSetLineStyle PDFLineStyle_default,
        CallDrawLine \<lparr>pt_x = 1, pt_y = 2\<rparr> \<lparr>pt_x = 3, pt_y = 4\<rparr>,
        CallNextPage,
        CallDrawRectangle \<lparr>m_min = \<lparr>pt_x = 1, pt_y = 2\<rparr>, m_max = \<lparr>pt_x = 3, pt_y = 4\<rparr>\<rparr>] s1 = Inr s2 \<and>
     Close_write example_runtime 0 s2 = Inr s3 \<and>
     map m_objnum (m_crossRefs s3) = [1..<9] \<and>
     xref_count s3 = 9"
proof -
  let ?rt = example_runtime
  let ?p = "\<lparr>pt_x = 1, pt_y = 2\<rparr>" and ?q = "\<lparr>pt_x = 3, pt_y = 4\<rparr>"
  have c: "closed_document Draw2pdf_default"
    by (simp add: closed_document_def Draw2pdf_default_def)
  have "wfopen_ok ?rt []" by (simp add: example_runtime_def)
  from Open_returns[OF c this] obtain s1 where
    o: "Open ?rt 0 [] PDFPoint_default \<lparr>pt_x = 612, pt_y = 792\<rparr> Draw2pdf_default = Inr s1"
    by blast
  note p1 = Open_page[OF c o]
  let ?a = "DrawLine ?rt ?p ?q (SetLineStyle ?rt PDFLineStyle_default s1)"
  have na: "numbers ?a = numbers s1" by simp
  have ia: "page_inv ?a" "m_images ?a = []" "m_objNumber ?a = 6"
    using page_inv_same[OF na p1(1)] images_same[OF na p1(2)] objNumber_same[OF na] p1(3)
    by simp_all
  from ia(1) have "is_open ?a" by (simp add: page_inv_def)
  from NextPage_returns[OF this ia(2)] obtain b where b: "NextPage ?rt ?a = Inr b"
    by blast
  note nb = NextPage_objNumber[OF b]
  let ?c = "DrawRectangle ?rt \<lparr>m_min = ?p, m_max = ?q\<rparr> b"
  have nc: "numbers ?c = numbers b" by simp
  have ic: "m_images ?c = []" "m_objNumber ?c = 9" "page_inv ?c"
    using images_same[OF nc nb(2)] objNumber_same[OF nc] nb(1) ia(3)
      page_inv_same[OF nc NextPage_page[OF ia(1) b]]
    by simp_all
  have d: "do_calls ?rt
       [CallSetLineStyle PDFLineStyle_default, CallDrawLine ?p ?q, CallNextPage,
        CallDrawRectangle \<lparr>m_min = ?p, m_max = ?q\<rparr>] s1 = Inr ?c"
    by (simp add: b)
  from ic(3) have "is_open ?c" by (simp add: page_inv_def)
  from Close_write_returns[OF this ic(1)] obtain s3 where
    w: "Close_write ?rt 0 ?c = Inr s3" by blast
  note t = xref_table_lists_every_object[OF c o d w]
  have n3: "m_objNumber s3 = 9" using Close_write_objNumber[OF w] ic(2) by simp
  from t have m: "map m_objnum (m_crossRefs s3) = [1..<9]" unfolding n3 by simp
  have "xref_count s3 = 9"
    using arg_cong[OF m, of length] by (simp add: xref_count_def)
  with m show ?thesis using c o d w by blast
qed

end
